theory Spec2Isabelle
  imports Complex_Main "HOL-Library.Sublist" "HOL-Library.Multiset"
begin

section \<open>Strings and characters\<close>

text \<open>
  A JavaScript string is modelled as a \<^typ>\<open>string\<close>: a list of characters whose codes
  are the code units U+0000 .. U+00FF (the Latin-1 range).  The three string primitives
  the slug generator relies on (\<open>trim\<close>, \<open>toLowerCase\<close> and the character class
  \<open>[a-z0-9]\<close>) are written out on character codes.
\<close>

definition code :: "char \<Rightarrow> nat" where
  "code c = of_char c"

definition is_alnum :: "char \<Rightarrow> bool" where
  \<comment> \<open>the character class \<open>[a-z0-9]\<close>\<close>
  "is_alnum c = ((97 \<le> code c \<and> code c \<le> 122) \<or> (48 \<le> code c \<and> code c \<le> 57))"

definition is_hyphen :: "char \<Rightarrow> bool" where
  "is_hyphen c = (c = CHR ''-'')"

definition is_space :: "char \<Rightarrow> bool" where
  \<comment> \<open>WhiteSpace and LineTerminator code points of ECMAScript below U+0100:
      TAB, LF, VT, FF, CR, SPACE, NBSP\<close>
  "is_space c = ((9 \<le> code c \<and> code c \<le> 13) \<or> code c = 32 \<or> code c = 160)"

definition lower_char :: "char \<Rightarrow> char" where
  \<comment> \<open>A-Z, and the Latin-1 capitals U+00C0 .. U+00DE without the multiplication sign\<close>
  "lower_char c =
     (if (65 \<le> code c \<and> code c \<le> 90) \<or> (192 \<le> code c \<and> code c \<le> 222 \<and> code c \<noteq> 215)
      then char_of (code c + 32) else c)"

definition toLowerCase :: "string \<Rightarrow> string" where
  "toLowerCase s = map lower_char s"

definition drop_trailing :: "(char \<Rightarrow> bool) \<Rightarrow> string \<Rightarrow> string" where
  "drop_trailing P s = rev (dropWhile P (rev s))"

definition trim :: "string \<Rightarrow> string" where
  "trim s = drop_trailing is_space (dropWhile is_space s)"

fun decimal :: "nat \<Rightarrow> string" where
  \<comment> \<open>the decimal digits of a number, as template-literal interpolation prints them\<close>
  "decimal n =
     (if n < 10 then [char_of (48 + n)] else decimal (n div 10) @ [char_of (48 + n mod 10)])"

declare decimal.simps [simp del]

definition truthy :: "string option \<Rightarrow> bool" where
  \<comment> \<open>JavaScript truthiness of an optional string: \<open>undefined\<close> and \<open>""\<close> are falsy\<close>
  "truthy v = (case v of None \<Rightarrow> False | Some s \<Rightarrow> s \<noteq> [])"


section \<open>Slug generator\<close>

text \<open>
  \<^verbatim>\<open>.replace(/[^a-z0-9]+/g, "-")\<close>: every maximal run of characters outside
  \<open>[a-z0-9]\<close> becomes one hyphen.
\<close>

function replace_non_alnum :: "string \<Rightarrow> string" where
  "replace_non_alnum [] = []"
| "replace_non_alnum (c # cs) =
     (if is_alnum c then c # replace_non_alnum cs
      else CHR ''-'' # replace_non_alnum (dropWhile (\<lambda>d. \<not> is_alnum d) cs))"
  by pat_completeness auto
termination
  by (relation "measure length") (auto simp: length_dropWhile_le le_imp_less_Suc)

text \<open>
  \<^verbatim>\<open>.replace(/^-+|-+$/g, "")\<close>: the run of hyphens at the start and the run of
  hyphens at the end are removed.
\<close>

definition strip_hyphens :: "string \<Rightarrow> string" where
  "strip_hyphens s = drop_trailing is_hyphen (dropWhile is_hyphen s)"

text \<open>
  \<^verbatim>\<open>.replace(/-{2,}/g, "-")\<close>: every maximal run of two or more hyphens becomes one
  hyphen (a single hyphen is not matched and stays).
\<close>

function collapse_hyphens :: "string \<Rightarrow> string" where
  "collapse_hyphens [] = []"
| "collapse_hyphens (c # cs) =
     (if is_hyphen c then CHR ''-'' # collapse_hyphens (dropWhile is_hyphen cs)
      else c # collapse_hyphens cs)"
  by pat_completeness auto
termination
  by (relation "measure length") (auto simp: length_dropWhile_le le_imp_less_Suc)

definition normalized :: "string \<Rightarrow> string" where
  \<comment> \<open>the pipeline of \<open>createSlug\<close> before the fallback\<close>
  "normalized v =
     collapse_hyphens (strip_hyphens (replace_non_alnum (toLowerCase (trim v))))"

definition createSlug :: "nat \<Rightarrow> string \<Rightarrow> string" where
  \<comment> \<open>\<open>now\<close> is the value of \<open>Date.now()\<close>: milliseconds elapsed since the epoch\<close>
  "createSlug now v =
     (let normalized = normalized v
      in if normalized \<noteq> [] then normalized else ''blog-'' @ decimal now)"

definition is_slug_char :: "char \<Rightarrow> bool" where
  \<comment> \<open>the character class \<open>[a-z0-9-]\<close>\<close>
  "is_slug_char c = (is_alnum c \<or> is_hyphen c)"

definition slug_form :: "string \<Rightarrow> bool" where
  "slug_form r =
     (r \<noteq> [] \<and> list_all is_slug_char r \<and> \<not> prefix ''-'' r \<and> \<not> suffix ''-'' r
      \<and> \<not> sublist ''--'' r)"


section \<open>Documents, requests and responses\<close>

text \<open>
  The documents of the \<open>Blog\<close> collection, with the fields of the schema in
  \<open>models/Blog.js\<close> and the two timestamps the schema option \<open>timestamps\<close> adds.
  An ObjectId is identified with its string form; dates are milliseconds since the epoch.
\<close>

record blog =
  blog_id :: string
  title :: string
  slug :: string
  content :: string
  blogImage :: string
  readTime :: int
  category :: string
  metaTitle :: string
  publishedDate :: int
  metaDescription :: string
  createdAt :: int
  updatedAt :: int

record category_doc =
  cat_id :: string
  cat_title :: string

record world =
  blogs :: "blog list"
  categories :: "category_doc list"

text \<open>What an error caught by a handler carries in its \<open>message\<close>.\<close>

datatype err =
    Message string
  | CastError
  | ValidationError
  | DuplicateKey
  | SkipError
  | RegexError

datatype jsnum = Num int | Infinity | NaN

record pagination =
  currentPage :: int
  totalPages :: jsnum
  totalBlogs :: nat
  hasNext :: "bool option"
  hasPrev :: "bool option"

type_synonym populated = "blog \<times> category_doc option"

datatype payload = NoData | Doc populated | Docs "populated list" pagination

record response =
  status :: nat
  success :: bool
  message :: "string option"
  error :: "err option"
  data :: payload

text \<open>The calls a handler makes to its collaborators, in the order it makes them.\<close>

datatype event =
    UploadBlogImage string
  | DeleteImageFromCloudinary string
  | CategoryFindById string
  | BlogFindOne string
  | BlogFindOneOther string string
  | BlogFindById string
  | BlogSave blog
  | BlogFind
  | BlogCountDocuments
  | BlogFindByIdAndUpdate string
  | BlogFindByIdAndDelete string

type_synonym outcome = "response \<times> world \<times> event list"

text \<open>
  What a handler takes from outside the two source files.  The image helpers of
  \<open>utils/upload\<close> are not among the sources: \<open>uploadBlogImage\<close> either returns
  the URL of the stored image (\<open>Inr\<close>) or throws an error with a message (\<open>Inl\<close>), and
  \<open>deleteImageFromCloudinary\<close> either returns (\<open>None\<close>) or throws (\<open>Some\<close> of the
  message).  \<open>castObjectId\<close> is the cast of a string to an ObjectId: it fails
  (\<open>None\<close>) on a string that is not the text of an ObjectId, and otherwise gives the
  ObjectId, which the documents hold in one canonical text (two texts of one ObjectId,
  such as its hexadecimal digits in upper and in lower case, cast to the same value).
  \<open>regex_valid\<close> and \<open>regex_test\<close> are the database's case-insensitive
  regular-expression search; \<open>now\<close> is the clock and \<open>new_id\<close> the ObjectId given
  to a new document.
\<close>

record env =
  uploadBlogImage :: "string \<Rightarrow> string + string"
  deleteImageFromCloudinary :: "string \<Rightarrow> string option"
  castObjectId :: "string \<Rightarrow> string option"
  regex_valid :: "string \<Rightarrow> bool"
  regex_test :: "string \<Rightarrow> string \<Rightarrow> bool"
  now :: nat
  new_id :: string

definition isValid :: "env \<Rightarrow> string \<Rightarrow> bool" where
  \<comment> \<open>\<open>mongoose.Types.ObjectId.isValid\<close>: the string is the text of an ObjectId\<close>
  "isValid ev s = (castObjectId ev s \<noteq> None)"

record create_request =
  req_file :: "string option"
  body_title :: "string option"
  body_content :: "string option"
  body_readTime :: "int option"
  body_category :: "string option"
  body_slug :: "string option"
  body_metaTitle :: "string option"
  body_metaDescription :: "string option"
  body_publishedDate :: "int option"
  body_blogImage :: "string option"

record update_request =
  upd_file :: "string option"
  upd_title :: "string option"
  upd_content :: "string option"
  upd_readTime :: "int option"
  upd_category :: "string option"
  upd_slug :: "string option"
  upd_publishedDate :: "int option"
  upd_blogImage :: "string option"

record list_query =
  q_page :: "int option"
  q_limit :: "int option"
  q_category :: "string option"
  q_search :: "string option"
  q_sortBy :: "string option"
  q_sortOrder :: "string option"

definition truthy_num :: "int option \<Rightarrow> bool" where
  \<comment> \<open>JavaScript truthiness of an optional number: \<open>undefined\<close> and \<open>0\<close> are falsy\<close>
  "truthy_num v = (case v of None \<Rightarrow> False | Some n \<Rightarrow> n \<noteq> 0)"

definition val :: "string option \<Rightarrow> string" where
  "val v = (case v of None \<Rightarrow> [] | Some s \<Rightarrow> s)"

definition num :: "int option \<Rightarrow> int" where
  "num v = (case v of None \<Rightarrow> 0 | Some n \<Rightarrow> n)"

definition or_default :: "'a option \<Rightarrow> 'a \<Rightarrow> 'a" where
  \<comment> \<open>a destructuring default: it applies when the property is \<open>undefined\<close>\<close>
  "or_default v d = (case v of None \<Rightarrow> d | Some x \<Rightarrow> x)"

definition respond :: "nat \<Rightarrow> bool \<Rightarrow> string option \<Rightarrow> err option \<Rightarrow> payload \<Rightarrow> response" where
  "respond st ok msg e d = \<lparr>status = st, success = ok, message = msg, error = e, data = d\<rparr>"


section \<open>The collections\<close>

text \<open>
  The operations of the two Mongoose models the handlers call.  Where the schema wants
  an ObjectId (\<open>_id\<close>, \<open>category\<close>) the string given is cast to one, and the operation
  throws a cast error when the cast fails; ids are compared as ObjectIds.  The setters
  of the schema (\<open>trim\<close> on the strings, \<open>lowercase\<close> on the slug) apply to the values
  written and to the conditions of a query.
\<close>

definition cast_slug :: "string \<Rightarrow> string" where
  "cast_slug s = toLowerCase (trim s)"

definition populate :: "world \<Rightarrow> blog \<Rightarrow> populated" where
  \<comment> \<open>\<open>.populate("category", "title")\<close>\<close>
  "populate w b = (b, find (\<lambda>c. cat_id c = category b) (categories w))"

definition Category_findById :: "env \<Rightarrow> world \<Rightarrow> string \<Rightarrow> err + category_doc option" where
  "Category_findById ev w i =
     (case castObjectId ev i of
        None \<Rightarrow> Inl CastError
      | Some oid \<Rightarrow> Inr (find (\<lambda>c. cat_id c = oid) (categories w)))"

definition Blog_findById :: "env \<Rightarrow> world \<Rightarrow> string \<Rightarrow> err + blog option" where
  "Blog_findById ev w i =
     (case castObjectId ev i of
        None \<Rightarrow> Inl CastError
      | Some oid \<Rightarrow> Inr (find (\<lambda>b. blog_id b = oid) (blogs w)))"

definition Blog_findOne_slug :: "world \<Rightarrow> string \<Rightarrow> blog option" where
  \<comment> \<open>\<open>Blog.findOne({ slug: s })\<close>\<close>
  "Blog_findOne_slug w s = find (\<lambda>b. slug b = cast_slug s) (blogs w)"

definition Blog_findOne_slug_other :: "env \<Rightarrow> world \<Rightarrow> string \<Rightarrow> string \<Rightarrow> err + blog option" where
  \<comment> \<open>\<open>Blog.findOne({ slug: s, _id: { $ne: i } })\<close>\<close>
  "Blog_findOne_slug_other ev w s i =
     (case castObjectId ev i of
        None \<Rightarrow> Inl CastError
      | Some oid \<Rightarrow> Inr (find (\<lambda>b. slug b = cast_slug s \<and> blog_id b \<noteq> oid) (blogs w)))"

definition doc_valid :: "blog \<Rightarrow> bool" where
  \<comment> \<open>the validators of the schema on the string and number paths\<close>
  "doc_valid d =
     (title d \<noteq> [] \<and> length (title d) \<le> 200
      \<and> slug d \<noteq> [] \<and> length (slug d) \<le> 220
      \<and> content d \<noteq> []
      \<and> blogImage d \<noteq> []
      \<and> 1 \<le> readTime d \<and> readTime d \<le> 60
      \<and> metaTitle d \<noteq> [] \<and> length (metaTitle d) \<le> 200
      \<and> metaDescription d \<noteq> [] \<and> length (metaDescription d) \<le> 200)"

definition Blog_save :: "env \<Rightarrow> world \<Rightarrow> blog \<Rightarrow> err + world \<times> blog" where
  \<comment> \<open>\<open>blog.save()\<close> of a new document whose \<open>category\<close> is still the string of the
      request: the cast of the category and the validation, then the insert under the
      unique indexes on \<open>_id\<close> and \<open>slug\<close>; the document as saved is returned\<close>
  "Blog_save ev w d =
     (case castObjectId ev (category d) of
        None \<Rightarrow> Inl ValidationError
      | Some oid \<Rightarrow>
          if \<not> doc_valid d then Inl ValidationError
          else if list_ex (\<lambda>b. blog_id b = blog_id d \<or> slug b = slug d) (blogs w)
          then Inl DuplicateKey
          else Inr (w\<lparr>blogs := blogs w @ [d\<lparr>category := oid\<rparr>]\<rparr>, d\<lparr>category := oid\<rparr>))"

record update_data =
  set_title :: "string option"
  set_content :: "string option"
  set_blogImage :: "string option"
  set_readTime :: "int option"
  set_category :: "string option"
  set_publishedDate :: "int option"
  set_slug :: "string option"

definition cast_update :: "env \<Rightarrow> update_data \<Rightarrow> update_data option" where
  \<comment> \<open>the cast of the update: the setters on the strings, and the category as an
      ObjectId; \<open>None\<close> when the category does not cast\<close>
  "cast_update ev u =
     (let u' = u\<lparr>set_title := map_option trim (set_title u),
                 set_content := map_option trim (set_content u),
                 set_blogImage := map_option trim (set_blogImage u),
                 set_slug := map_option cast_slug (set_slug u)\<rparr>
      in case set_category u of
           None \<Rightarrow> Some u'
         | Some c \<Rightarrow>
             (case castObjectId ev c of
                None \<Rightarrow> None
              | Some oid \<Rightarrow> Some (u'\<lparr>set_category := Some oid\<rparr>)))"

definition update_valid :: "update_data \<Rightarrow> bool" where
  \<comment> \<open>\<open>runValidators: true\<close>: the validators of the schema (\<open>required\<close>, \<open>maxlength\<close>,
      \<open>min\<close>, \<open>max\<close>) on the paths the update sets\<close>
  "update_valid u =
     ((case set_title u of None \<Rightarrow> True | Some t \<Rightarrow> t \<noteq> [] \<and> length t \<le> 200)
      \<and> (case set_content u of None \<Rightarrow> True | Some c \<Rightarrow> c \<noteq> [])
      \<and> (case set_blogImage u of None \<Rightarrow> True | Some g \<Rightarrow> g \<noteq> [])
      \<and> (case set_slug u of None \<Rightarrow> True | Some s \<Rightarrow> s \<noteq> [] \<and> length s \<le> 220)
      \<and> (case set_readTime u of None \<Rightarrow> True | Some n \<Rightarrow> 1 \<le> n \<and> n \<le> 60))"

definition apply_update :: "update_data \<Rightarrow> blog \<Rightarrow> blog" where
  "apply_update u b =
     b\<lparr>title := or_default (set_title u) (title b),
       content := or_default (set_content u) (content b),
       blogImage := or_default (set_blogImage u) (blogImage b),
       readTime := or_default (set_readTime u) (readTime b),
       category := or_default (set_category u) (category b),
       publishedDate := or_default (set_publishedDate u) (publishedDate b),
       slug := or_default (set_slug u) (slug b)\<rparr>"

fun replace_first :: "(blog \<Rightarrow> bool) \<Rightarrow> blog \<Rightarrow> blog list \<Rightarrow> blog list" where
  "replace_first P d [] = []"
| "replace_first P d (b # bs) = (if P b then d # bs else b # replace_first P d bs)"

fun remove_first :: "(blog \<Rightarrow> bool) \<Rightarrow> blog list \<Rightarrow> blog list" where
  "remove_first P [] = []"
| "remove_first P (b # bs) = (if P b then bs else b # remove_first P bs)"

definition Blog_findByIdAndUpdate ::
  "env \<Rightarrow> world \<Rightarrow> string \<Rightarrow> update_data \<Rightarrow> err + world \<times> blog option" where
  \<comment> \<open>with the options \<open>new: true\<close> and \<open>runValidators: true\<close>\<close>
  "Blog_findByIdAndUpdate ev w i u =
     (case castObjectId ev i of
        None \<Rightarrow> Inl CastError
      | Some oid \<Rightarrow>
          (case cast_update ev u of
             None \<Rightarrow> Inl CastError
           | Some u' \<Rightarrow>
               if \<not> update_valid u' then Inl ValidationError
               else
                 (case find (\<lambda>b. blog_id b = oid) (blogs w) of
                    None \<Rightarrow> Inr (w, None)
                  | Some b \<Rightarrow>
                      (let b' = (apply_update u' b)\<lparr>updatedAt := int (now ev)\<rparr>
                       in if list_ex (\<lambda>b. blog_id b \<noteq> oid \<and> slug b = slug b') (blogs w)
                          then Inl DuplicateKey
                          else Inr (w\<lparr>blogs :=
                                        replace_first (\<lambda>b. blog_id b = oid) b' (blogs w)\<rparr>,
                                    Some b')))))"

definition Blog_findByIdAndDelete :: "env \<Rightarrow> world \<Rightarrow> string \<Rightarrow> err + world" where
  "Blog_findByIdAndDelete ev w i =
     (case castObjectId ev i of
        None \<Rightarrow> Inl CastError
      | Some oid \<Rightarrow> Inr (w\<lparr>blogs := remove_first (\<lambda>b. blog_id b = oid) (blogs w)\<rparr>))"

text \<open>The filter object of the two listings.\<close>

record query_filter =
  publishedDate_lte :: int
  filter_category :: "string option"
  filter_search :: "string option"

definition matches :: "env \<Rightarrow> query_filter \<Rightarrow> blog \<Rightarrow> bool" where
  "matches ev f b =
     (publishedDate b \<le> publishedDate_lte f
      \<and> (case filter_category f of
            None \<Rightarrow> True
          | Some c \<Rightarrow> castObjectId ev c = Some (category b))
      \<and> (case filter_search f of None \<Rightarrow> True
          | Some s \<Rightarrow> regex_test ev s (title b) \<or> regex_test ev s (content b)))"

definition filter_error :: "env \<Rightarrow> query_filter \<Rightarrow> err option" where
  \<comment> \<open>what the cast of the filter throws: a category that is not an ObjectId, a search
      that is not a regular expression\<close>
  "filter_error ev f =
     (if (case filter_category f of None \<Rightarrow> False | Some c \<Rightarrow> \<not> isValid ev c) then Some CastError
      else if (case filter_search f of None \<Rightarrow> False | Some s \<Rightarrow> \<not> regex_valid ev s)
      then Some RegexError
      else None)"

text \<open>The sort: a field of the document and a direction.\<close>

datatype field_value = VNull | VNum int | VStr string

definition field :: "string \<Rightarrow> blog \<Rightarrow> field_value" where
  "field name b =
     (if name = ''_id'' then VStr (blog_id b)
      else if name = ''title'' then VStr (title b)
      else if name = ''slug'' then VStr (slug b)
      else if name = ''content'' then VStr (content b)
      else if name = ''blogImage'' then VStr (blogImage b)
      else if name = ''readTime'' then VNum (readTime b)
      else if name = ''category'' then VStr (category b)
      else if name = ''metaTitle'' then VStr (metaTitle b)
      else if name = ''publishedDate'' then VNum (publishedDate b)
      else if name = ''metaDescription'' then VStr (metaDescription b)
      else if name = ''createdAt'' then VNum (createdAt b)
      else if name = ''updatedAt'' then VNum (updatedAt b)
      else VNull)"

fun str_le :: "string \<Rightarrow> string \<Rightarrow> bool" where
  "str_le [] t = True"
| "str_le (c # cs) [] = False"
| "str_le (c # cs) (d # ds) = (code c < code d \<or> (c = d \<and> str_le cs ds))"

fun value_le :: "field_value \<Rightarrow> field_value \<Rightarrow> bool" where
  "value_le VNull y = True"
| "value_le (VNum a) VNull = False"
| "value_le (VNum a) (VNum b) = (a \<le> b)"
| "value_le (VNum a) (VStr t) = True"
| "value_le (VStr s) (VStr t) = str_le s t"
| "value_le (VStr s) y = False"

fun insort_by :: "('a \<Rightarrow> 'a \<Rightarrow> bool) \<Rightarrow> 'a \<Rightarrow> 'a list \<Rightarrow> 'a list" where
  "insort_by le x [] = [x]"
| "insort_by le x (y # ys) = (if le x y then x # y # ys else y # insort_by le x ys)"

definition sort_by :: "('a \<Rightarrow> 'a \<Rightarrow> bool) \<Rightarrow> 'a list \<Rightarrow> 'a list" where
  "sort_by le xs = foldr (insort_by le) xs []"

definition sort_docs :: "string \<Rightarrow> int \<Rightarrow> blog list \<Rightarrow> blog list" where
  \<comment> \<open>\<open>.sort({ [name]: dir })\<close>, with \<open>dir\<close> 1 (ascending) or -1 (descending)\<close>
  "sort_docs name dir ds =
     sort_by (\<lambda>a b. if dir = -1 then value_le (field name b) (field name a)
                     else value_le (field name a) (field name b)) ds"

definition skip_limit :: "int \<Rightarrow> int \<Rightarrow> 'a list \<Rightarrow> 'a list" where
  \<comment> \<open>the cursor's \<open>skip\<close> and \<open>limit\<close>: the skip applies first, whatever the order of
      the two calls; a limit of 0 is no limit, a negative limit counts as its absolute value\<close>
  "skip_limit sk limit ds =
     (if limit = 0 then drop (nat sk) ds else take (nat \<bar>limit\<bar>) (drop (nat sk) ds))"

definition Blog_find ::
  "env \<Rightarrow> world \<Rightarrow> query_filter \<Rightarrow> string \<Rightarrow> int \<Rightarrow> int \<Rightarrow> int \<Rightarrow> err + populated list" where
  \<comment> \<open>\<open>Blog.find(filter).populate("category", "title").sort(sort).limit(limit).skip(sk)\<close>;
      the database refuses a negative skip\<close>
  "Blog_find ev w f name dir limit sk =
     (case filter_error ev f of
        Some e \<Rightarrow> Inl e
      | None \<Rightarrow>
          if sk < 0 then Inl SkipError
          else Inr (map (populate w)
                      (skip_limit sk limit (sort_docs name dir (filter (matches ev f) (blogs w))))))"

definition Blog_countDocuments :: "env \<Rightarrow> world \<Rightarrow> query_filter \<Rightarrow> err + nat" where
  "Blog_countDocuments ev w f =
     (case filter_error ev f of
        Some e \<Rightarrow> Inl e
      | None \<Rightarrow> Inr (length (filter (matches ev f) (blogs w))))"

definition ceil_div :: "nat \<Rightarrow> int \<Rightarrow> jsnum" where
  \<comment> \<open>\<open>Math.ceil(total / limit)\<close>\<close>
  "ceil_div tot limit =
     (if limit = 0 then (if tot = 0 then NaN else Infinity)
      else Num (- ((- int tot) div limit)))"

definition js_less :: "int \<Rightarrow> jsnum \<Rightarrow> bool" where
  \<comment> \<open>\<open>page < n\<close>\<close>
  "js_less p n = (case n of Num k \<Rightarrow> p < k | Infinity \<Rightarrow> True | NaN \<Rightarrow> False)"


section \<open>The controllers\<close>

text \<open>
  Each handler takes the environment, the state of the collections and the request, and
  returns the response it sends, the state it leaves and the calls it made.  The
  \<open>catch\<close> block of a handler is the branch of each call that throws.  One reading of
  the clock serves a whole request, except in \<open>getBlogsByCategory\<close>, whose two
  \<open>new Date()\<close> build the two filters it queries with.
\<close>

definition new_Blog :: "env \<Rightarrow> create_request \<Rightarrow> string \<Rightarrow> string \<Rightarrow> blog" where
  \<comment> \<open>\<open>new Blog({...})\<close>, with the setters of the schema applied\<close>
  "new_Blog ev req img normalizedSlug =
     \<lparr>blog_id = new_id ev,
      title = trim (val (body_title req)),
      slug = cast_slug normalizedSlug,
      content = trim (val (body_content req)),
      blogImage = trim img,
      readTime = num (body_readTime req),
      category = val (body_category req),
      metaTitle = trim (val (body_metaTitle req)),
      publishedDate =
        (if truthy_num (body_publishedDate req) then num (body_publishedDate req)
         else int (now ev)),
      metaDescription = trim (val (body_metaDescription req)),
      createdAt = int (now ev),
      updatedAt = int (now ev)\<rparr>"

definition createBlog_checked ::
  "env \<Rightarrow> world \<Rightarrow> create_request \<Rightarrow> string option \<Rightarrow> event list \<Rightarrow> outcome" where
  \<comment> \<open>\<open>createBlog\<close> from the validation on; \<open>img\<close> is the local \<open>blogImage\<close>\<close>
  "createBlog_checked ev w req img tr =
     (if \<not> truthy (body_title req) \<or> \<not> truthy (body_content req)
         \<or> \<not> truthy_num (body_readTime req) \<or> \<not> truthy (body_category req)
      then (respond 400 False (Some ''Title, content, readTime, and category are required'')
              None NoData, w, tr)
      else if \<not> truthy img
      then (respond 400 False (Some ''Blog image is required'') None NoData, w, tr)
      else
        (let tr1 = tr @ [CategoryFindById (val (body_category req))]
         in case Category_findById ev w (val (body_category req)) of
              Inl e \<Rightarrow> (respond 500 False (Some ''Error creating blog'') (Some e) NoData, w, tr1)
            | Inr None \<Rightarrow> (respond 404 False (Some ''Category not found'') None NoData, w, tr1)
            | Inr (Some categoryExists) \<Rightarrow>
                (let normalizedSlug =
                       createSlug (now ev)
                         (if truthy (body_slug req) then val (body_slug req)
                          else val (body_title req));
                     tr2 = tr1 @ [BlogFindOne normalizedSlug]
                 in case Blog_findOne_slug w normalizedSlug of
                      Some slugExists \<Rightarrow>
                        (respond 409 False (Some ''Slug already exists'') None NoData, w, tr2)
                    | None \<Rightarrow>
                        (let blog = new_Blog ev req (val img) normalizedSlug
                         in case Blog_save ev w blog of
                              Inl e \<Rightarrow>
                                (respond 500 False (Some ''Error creating blog'') (Some e) NoData,
                                 w, tr2 @ [BlogSave blog])
                            | Inr (w', saved) \<Rightarrow>
                                (respond 201 True (Some ''Blog created successfully'') None
                                   (Doc (populate w' saved)),
                                 w', tr2 @ [BlogSave blog])))))"

definition createBlog :: "env \<Rightarrow> world \<Rightarrow> create_request \<Rightarrow> outcome" where
  "createBlog ev w req =
     (case req_file req of
        Some buffer \<Rightarrow>
          (case uploadBlogImage ev buffer of
             Inl msg \<Rightarrow>
               (respond 500 False (Some ''Error uploading image'') (Some (Message msg)) NoData,
                w, [UploadBlogImage buffer])
           | Inr url \<Rightarrow> createBlog_checked ev w req (Some url) [UploadBlogImage buffer])
      | None \<Rightarrow> createBlog_checked ev w req (body_blogImage req) [])"

definition list_response ::
  "string \<Rightarrow> err + populated list \<Rightarrow> err + nat \<Rightarrow> (nat \<Rightarrow> pagination) \<Rightarrow> world \<Rightarrow> outcome" where
  \<comment> \<open>the two awaited queries of a listing and the response built from them\<close>
  "list_response failure found counted pg w =
     (case found of
        Inl e \<Rightarrow> (respond 500 False (Some failure) (Some e) NoData, w, [BlogFind])
      | Inr docs \<Rightarrow>
          (case counted of
             Inl e \<Rightarrow>
               (respond 500 False (Some failure) (Some e) NoData, w, [BlogFind, BlogCountDocuments])
           | Inr tot \<Rightarrow>
               (respond 200 True None None (Docs docs (pg tot)), w,
                [BlogFind, BlogCountDocuments])))"

definition getBlogs_filter :: "env \<Rightarrow> list_query \<Rightarrow> query_filter" where
  "getBlogs_filter ev q =
     \<lparr>publishedDate_lte = int (now ev),
      filter_category = (if truthy (q_category q) then q_category q else None),
      filter_search = (if truthy (q_search q) then q_search q else None)\<rparr>"

definition getBlogs :: "env \<Rightarrow> world \<Rightarrow> list_query \<Rightarrow> outcome" where
  "getBlogs ev w q =
     (let page = or_default (q_page q) 1;
          limit = or_default (q_limit q) 10;
          sortBy = or_default (q_sortBy q) ''publishedDate'';
          sortOrder = or_default (q_sortOrder q) ''desc'';
          flt = getBlogs_filter ev q;
          dir = (if sortOrder = ''desc'' then - 1 else 1)
      in list_response ''Error fetching blogs''
           (Blog_find ev w flt sortBy dir (limit * 1) ((page - 1) * limit))
           (Blog_countDocuments ev w flt)
           (\<lambda>tot. \<lparr>currentPage = page,
                   totalPages = ceil_div tot limit,
                   totalBlogs = tot,
                   hasNext = Some (js_less page (ceil_div tot limit)),
                   hasPrev = Some (page > 1)\<rparr>)
           w)"

definition getBlogsByCategory :: "env \<Rightarrow> nat \<Rightarrow> world \<Rightarrow> string \<Rightarrow> list_query \<Rightarrow> outcome" where
  \<comment> \<open>\<open>later\<close> is the clock at the second \<open>new Date()\<close>, the one of the count\<close>
  "getBlogsByCategory ev later w categoryId q =
     (let page = or_default (q_page q) 1;
          limit = or_default (q_limit q) 10
      in list_response ''Error fetching blogs by category''
           (Blog_find ev w
              \<lparr>publishedDate_lte = int (now ev), filter_category = Some categoryId,
               filter_search = None\<rparr>
              ''publishedDate'' (- 1) (limit * 1) ((page - 1) * limit))
           (Blog_countDocuments ev w
              \<lparr>publishedDate_lte = int later, filter_category = Some categoryId,
               filter_search = None\<rparr>)
           (\<lambda>tot. \<lparr>currentPage = page,
                   totalPages = ceil_div tot limit,
                   totalBlogs = tot,
                   hasNext = None,
                   hasPrev = None\<rparr>)
           w)"

definition getBlogById :: "env \<Rightarrow> world \<Rightarrow> string \<Rightarrow> outcome" where
  "getBlogById ev w identifier =
     (let tr = (if isValid ev identifier then [BlogFindById identifier] else [])
      in case (if isValid ev identifier then Blog_findById ev w identifier else Inr None) of
           Inl e \<Rightarrow> (respond 500 False (Some ''Error fetching blog'') (Some e) NoData, w, tr)
         | Inr (Some blog) \<Rightarrow> (respond 200 True None None (Doc (populate w blog)), w, tr)
         | Inr None \<Rightarrow>
             (case Blog_findOne_slug w identifier of
                None \<Rightarrow>
                  (respond 404 False (Some ''Blog not found'') None NoData, w,
                   tr @ [BlogFindOne identifier])
              | Some blog \<Rightarrow>
                  (respond 200 True None None (Doc (populate w blog)), w,
                   tr @ [BlogFindOne identifier])))"

definition getBlogBySlug :: "env \<Rightarrow> world \<Rightarrow> string \<Rightarrow> outcome" where
  "getBlogBySlug ev w s =
     (case Blog_findOne_slug w s of
        None \<Rightarrow> (respond 404 False (Some ''Blog not found'') None NoData, w, [BlogFindOne s])
      | Some blog \<Rightarrow> (respond 200 True None None (Doc (populate w blog)), w, [BlogFindOne s]))"

definition updateBlog_write ::
  "env \<Rightarrow> world \<Rightarrow> string \<Rightarrow> update_data \<Rightarrow> event list \<Rightarrow> outcome" where
  \<comment> \<open>\<open>updateBlog\<close> from \<open>Blog.findByIdAndUpdate\<close> on\<close>
  "updateBlog_write ev w i updateData tr =
     (case Blog_findByIdAndUpdate ev w i updateData of
        Inl e \<Rightarrow>
          (respond 500 False (Some ''Error updating blog'') (Some e) NoData, w,
           tr @ [BlogFindByIdAndUpdate i])
      | Inr (w', None) \<Rightarrow>
          (respond 404 False (Some ''Blog not found'') None NoData, w',
           tr @ [BlogFindByIdAndUpdate i])
      | Inr (w', Some blog) \<Rightarrow>
          (respond 200 True (Some ''Blog updated successfully'') None (Doc (populate w' blog)),
           w', tr @ [BlogFindByIdAndUpdate i]))"

definition updateBlog_data :: "update_request \<Rightarrow> string option \<Rightarrow> update_data" where
  \<comment> \<open>the object \<open>updateData\<close> before the slug is looked at\<close>
  "updateBlog_data req img =
     \<lparr>set_title = (if truthy (upd_title req) then upd_title req else None),
      set_content = (if truthy (upd_content req) then upd_content req else None),
      set_blogImage = (if truthy img then img else None),
      set_readTime = (if truthy_num (upd_readTime req) then upd_readTime req else None),
      set_category = (if truthy (upd_category req) then upd_category req else None),
      set_publishedDate =
        (if truthy_num (upd_publishedDate req) then upd_publishedDate req else None),
      set_slug = None\<rparr>"

definition updateBlog_slug ::
  "env \<Rightarrow> world \<Rightarrow> string \<Rightarrow> update_request \<Rightarrow> string option \<Rightarrow> event list \<Rightarrow> outcome" where
  \<comment> \<open>\<open>updateBlog\<close> from the construction of \<open>updateData\<close> on\<close>
  "updateBlog_slug ev w i req img tr =
     (let updateData = updateBlog_data req img
      in if truthy (upd_slug req)
         then
           (let normalizedSlug = createSlug (now ev) (val (upd_slug req));
                tr1 = tr @ [BlogFindOneOther normalizedSlug i]
            in case Blog_findOne_slug_other ev w normalizedSlug i of
                 Inl e \<Rightarrow>
                   (respond 500 False (Some ''Error updating blog'') (Some e) NoData, w, tr1)
               | Inr (Some slugExists) \<Rightarrow>
                   (respond 409 False (Some ''Slug already exists'') None NoData, w, tr1)
               | Inr None \<Rightarrow>
                   updateBlog_write ev w i (updateData\<lparr>set_slug := Some normalizedSlug\<rparr>) tr1)
         else updateBlog_write ev w i updateData tr)"

definition updateBlog_category ::
  "env \<Rightarrow> world \<Rightarrow> string \<Rightarrow> update_request \<Rightarrow> string option \<Rightarrow> event list \<Rightarrow> outcome" where
  \<comment> \<open>\<open>updateBlog\<close> from the category check on\<close>
  "updateBlog_category ev w i req img tr =
     (if truthy (upd_category req)
      then
        (let tr1 = tr @ [CategoryFindById (val (upd_category req))]
         in case Category_findById ev w (val (upd_category req)) of
              Inl e \<Rightarrow> (respond 500 False (Some ''Error updating blog'') (Some e) NoData, w, tr1)
            | Inr None \<Rightarrow> (respond 404 False (Some ''Category not found'') None NoData, w, tr1)
            | Inr (Some categoryExists) \<Rightarrow> updateBlog_slug ev w i req img tr1)
      else updateBlog_slug ev w i req img tr)"

definition updateBlog :: "env \<Rightarrow> world \<Rightarrow> string \<Rightarrow> update_request \<Rightarrow> outcome" where
  "updateBlog ev w i req =
     (case upd_file req of
        Some buffer \<Rightarrow>
          (case uploadBlogImage ev buffer of
             Inl msg \<Rightarrow>
               (respond 500 False (Some ''Error updating blog'') (Some (Message msg)) NoData,
                w, [UploadBlogImage buffer])
           | Inr url \<Rightarrow> updateBlog_category ev w i req (Some url) [UploadBlogImage buffer])
      | None \<Rightarrow> updateBlog_category ev w i req (upd_blogImage req) [])"

definition deleteBlog_record :: "env \<Rightarrow> world \<Rightarrow> string \<Rightarrow> event list \<Rightarrow> outcome" where
  \<comment> \<open>\<open>deleteBlog\<close> from \<open>Blog.findByIdAndDelete\<close> on\<close>
  "deleteBlog_record ev w i tr =
     (case Blog_findByIdAndDelete ev w i of
        Inl e \<Rightarrow>
          (respond 500 False (Some ''Error deleting blog'') (Some e) NoData, w,
           tr @ [BlogFindByIdAndDelete i])
      | Inr w' \<Rightarrow>
          (respond 200 True (Some ''Blog deleted successfully'') None NoData, w',
           tr @ [BlogFindByIdAndDelete i]))"

definition deleteBlog :: "env \<Rightarrow> world \<Rightarrow> string \<Rightarrow> outcome" where
  "deleteBlog ev w i =
     (case Blog_findById ev w i of
        Inl e \<Rightarrow>
          (respond 500 False (Some ''Error deleting blog'') (Some e) NoData, w, [BlogFindById i])
      | Inr None \<Rightarrow>
          (respond 404 False (Some ''Blog not found'') None NoData, w, [BlogFindById i])
      | Inr (Some blog) \<Rightarrow>
          if sublist ''cloudinary.com'' (blogImage blog)
          then
            (case deleteImageFromCloudinary ev (blogImage blog) of
               Some msg \<Rightarrow>
                 (respond 500 False (Some ''Error deleting blog'') (Some (Message msg)) NoData,
                  w, [BlogFindById i, DeleteImageFromCloudinary (blogImage blog)])
             | None \<Rightarrow>
                 deleteBlog_record ev w i
                   [BlogFindById i, DeleteImageFromCloudinary (blogImage blog)])
          else deleteBlog_record ev w i [BlogFindById i])"

text \<open>The documents a response lists, and the parts of an outcome.\<close>

definition listed :: "response \<Rightarrow> blog list" where
  "listed r = (case data r of Docs ds pg \<Rightarrow> map fst ds | Doc d \<Rightarrow> [fst d] | NoData \<Rightarrow> [])"

definition paging :: "response \<Rightarrow> pagination option" where
  "paging r = (case data r of Docs ds pg \<Rightarrow> Some pg | Doc d \<Rightarrow> None | NoData \<Rightarrow> None)"

definition sent :: "outcome \<Rightarrow> response" where
  "sent out = fst out"

definition left :: "outcome \<Rightarrow> world" where
  "left out = fst (snd out)"

definition calls :: "outcome \<Rightarrow> event list" where
  "calls out = snd (snd out)"


text \<open>
  A create request passes the steps that come before the slug check: the upload succeeds
  when there is a file, the four required fields and the image are there, and the
  category is found.
\<close>

definition passes_to_slug_check :: "env \<Rightarrow> world \<Rightarrow> create_request \<Rightarrow> bool" where
  "passes_to_slug_check ev w req =
     ((case req_file req of
         None \<Rightarrow> truthy (body_blogImage req)
       | Some buffer \<Rightarrow>
           (case uploadBlogImage ev buffer of Inl msg \<Rightarrow> False | Inr url \<Rightarrow> url \<noteq> []))
      \<and> truthy (body_title req) \<and> truthy (body_content req)
      \<and> truthy_num (body_readTime req) \<and> truthy (body_category req)
      \<and> (case Category_findById ev w (val (body_category req)) of
            Inl e \<Rightarrow> False | Inr None \<Rightarrow> False | Inr (Some c) \<Rightarrow> True))"


text \<open>
  An update request reaches the slug check: the upload succeeds when there is a file,
  and the category is found when one is supplied.
\<close>

definition update_reaches_slug_check :: "env \<Rightarrow> world \<Rightarrow> update_request \<Rightarrow> bool" where
  "update_reaches_slug_check ev w req =
     ((case upd_file req of
         None \<Rightarrow> True
       | Some buffer \<Rightarrow> (case uploadBlogImage ev buffer of Inl msg \<Rightarrow> False | Inr url \<Rightarrow> True))
      \<and> (if truthy (upd_category req)
          then (case Category_findById ev w (val (upd_category req)) of
                  Inl e \<Rightarrow> False | Inr None \<Rightarrow> False | Inr (Some c) \<Rightarrow> True)
          else True))"


text \<open>
  The listing as the specification words it (section 4.3), to compare \<open>getBlogs\<close>
  with.  A post is eligible when its \<open>publishedDate\<close> is at most now; when a category
  is given, the post is of that category; when a search is given, the search matches
  the title or the content.  Two posts are in order when the field the request sorts by
  does not decrease from the first to the second, or does not increase when the order
  asked for is \<open>desc\<close>.
\<close>

definition spec_eligible :: "env \<Rightarrow> list_query \<Rightarrow> blog \<Rightarrow> bool" where
  "spec_eligible ev q b =
     (publishedDate b \<le> int (now ev)
      \<and> (truthy (q_category q) \<longrightarrow> castObjectId ev (val (q_category q)) = Some (category b))
      \<and> (truthy (q_search q) \<longrightarrow>
            regex_test ev (val (q_search q)) (title b)
            \<or> regex_test ev (val (q_search q)) (content b)))"

definition spec_in_order :: "string \<Rightarrow> string \<Rightarrow> blog \<Rightarrow> blog \<Rightarrow> bool" where
  "spec_in_order sortBy sortOrder a b =
     (if sortOrder = ''desc'' then value_le (field sortBy b) (field sortBy a)
      else value_le (field sortBy a) (field sortBy b))"


section \<open>Example data\<close>

text \<open>
  A small instance of the environment and of the collections, on which the handlers are
  run: the text of an ObjectId is a string of 24 hexadecimal digits, in upper or lower
  case, and its canonical text is the one in lower case; the search is a
  case-insensitive substring search, and the clock shows 20.
\<close>

definition hex_digit :: "char \<Rightarrow> bool" where
  "hex_digit c =
     ((48 \<le> code c \<and> code c \<le> 57) \<or> (97 \<le> code c \<and> code c \<le> 102)
      \<or> (65 \<le> code c \<and> code c \<le> 70))"

definition hex24 :: "string \<Rightarrow> bool" where
  "hex24 s = (length s = 24 \<and> list_all hex_digit s)"

definition example_env :: env where
  "example_env =
     \<lparr>uploadBlogImage = (\<lambda>buffer. Inr (''https://res.cloudinary.com/demo/'' @ buffer)),
      deleteImageFromCloudinary = (\<lambda>url. None),
      castObjectId = (\<lambda>s. if hex24 s then Some (toLowerCase s) else None),
      regex_valid = (\<lambda>p. True),
      regex_test = (\<lambda>p t. sublist (toLowerCase p) (toLowerCase t)),
      now = 20,
      new_id = ''64b0000000000000000000b9''\<rparr>"

definition failing_env :: env where
  \<comment> \<open>the same, with an image store that is down\<close>
  "failing_env =
     example_env\<lparr>uploadBlogImage := (\<lambda>buffer. Inl ''upload timed out''),
                 deleteImageFromCloudinary := (\<lambda>url. Some ''destroy failed'')\<rparr>"

definition post_hello :: blog where
  "post_hello =
     \<lparr>blog_id = ''64b0000000000000000000b1'',
      title = ''Hello, World!'',
      slug = ''hello-world'',
      content = ''A first post'',
      blogImage = ''https://res.cloudinary.com/demo/hello.jpg'',
      readTime = 3,
      category = ''64b0000000000000000000c1'',
      metaTitle = ''Hello'',
      publishedDate = 10,
      metaDescription = ''A first post'',
      createdAt = 10,
      updatedAt = 10\<rparr>"

definition post_goa :: blog where
  \<comment> \<open>scheduled: its date is after the clock of the example\<close>
  "post_goa =
     \<lparr>blog_id = ''64b0000000000000000000b2'',
      title = ''Goa trip'',
      slug = ''goa-trip'',
      content = ''Beaches'',
      blogImage = ''https://example.org/goa.jpg'',
      readTime = 5,
      category = ''64b0000000000000000000c1'',
      metaTitle = ''Goa'',
      publishedDate = 30,
      metaDescription = ''Beaches of Goa'',
      createdAt = 15,
      updatedAt = 15\<rparr>"

definition example_world :: world where
  "example_world =
     \<lparr>blogs = [post_hello, post_goa],
      categories = [\<lparr>cat_id = ''64b0000000000000000000c1'', cat_title = ''Travel''\<rparr>]\<rparr>"

definition example_create :: create_request where
  \<comment> \<open>a complete request with an image file; its title gives the slug of \<open>post_hello\<close>\<close>
  "example_create =
     \<lparr>req_file = Some ''JPEGDATA'',
      body_title = Some ''Hello World'',
      body_content = Some ''Again'',
      body_readTime = Some 4,
      body_category = Some ''64b0000000000000000000c1'',
      body_slug = None,
      body_metaTitle = Some ''Hello again'',
      body_metaDescription = Some ''Hello again'',
      body_publishedDate = None,
      body_blogImage = None\<rparr>"

definition slug_only :: "string \<Rightarrow> update_request" where
  \<comment> \<open>an update that supplies a slug and nothing else\<close>
  "slug_only s =
     \<lparr>upd_file = None,
      upd_title = None,
      upd_content = None,
      upd_readTime = None,
      upd_category = None,
      upd_slug = Some s,
      upd_publishedDate = None,
      upd_blogImage = None\<rparr>"

definition page_query :: "int \<Rightarrow> int \<Rightarrow> list_query" where
  \<comment> \<open>a listing that gives the page and the limit and nothing else\<close>
  "page_query p l =
     \<lparr>q_page = Some p,
      q_limit = Some l,
      q_category = None,
      q_search = None,
      q_sortBy = None,
      q_sortOrder = None\<rparr>"

definition numbered_post :: "nat \<Rightarrow> blog" where
  "numbered_post n =
     post_hello\<lparr>blog_id := ''64b00000000000000000'' @ decimal (1000 + n),
                slug := ''post-'' @ decimal n,
                publishedDate := int (n mod 7)\<rparr>"

definition world25 :: world where
  \<comment> \<open>25 posts, all published before the clock of the example\<close>
  "world25 = example_world\<lparr>blogs := map numbered_post [0..<25]\<rparr>"


section \<open>Properties of the slug generator\<close>

lemma code_hyphen: "code CHR ''-'' = 45"
  by (simp add: code_def)

lemma hyphen_not_alnum: "\<not> is_alnum CHR ''-''"
  by (simp add: is_alnum_def code_hyphen)

lemma alnum_not_hyphen: "is_alnum c \<Longrightarrow> \<not> is_hyphen c"
  using hyphen_not_alnum by (auto simp: is_hyphen_def)

lemma slug_char_not_space: "is_slug_char c \<Longrightarrow> \<not> is_space c"
  by (auto simp: is_slug_char_def is_alnum_def is_space_def is_hyphen_def code_hyphen)

lemma lower_slug_char: "is_slug_char c \<Longrightarrow> lower_char c = c"
  by (auto simp: is_slug_char_def is_alnum_def lower_char_def is_hyphen_def code_hyphen)

lemma digit_alnum: "(d::nat) < 10 \<Longrightarrow> is_alnum (char_of (48 + d))"
  by (simp add: is_alnum_def code_def)

lemma decimal_alnum: "list_all is_alnum (decimal n)"
proof (induction n rule: decimal.induct)
  case (1 n)
  show ?case
  proof (cases "n < 10")
    case True
    then show ?thesis by (subst decimal.simps) (simp add: digit_alnum)
  next
    case False
    with 1 show ?thesis by (subst decimal.simps) (simp add: digit_alnum)
  qed
qed

lemma decimal_nonempty: "decimal n \<noteq> []"
  by (subst decimal.simps) simp

lemma replace_chars: "list_all is_slug_char (replace_non_alnum s)"
  by (induction s rule: replace_non_alnum.induct) (auto simp: is_slug_char_def is_hyphen_def)

lemma dropWhile_starts: "dropWhile P xs = y # ys \<Longrightarrow> \<not> P y"
  using hd_dropWhile [of P xs] by auto

lemma replace_head_alnum:
  "\<not> prefix ''-'' (replace_non_alnum (dropWhile (\<lambda>d. \<not> is_alnum d) cs))"
proof (cases "dropWhile (\<lambda>d. \<not> is_alnum d) cs")
  case Nil
  then show ?thesis by (simp del: dropWhile_eq_Nil_conv)
next
  case (Cons y ys)
  then have "is_alnum y" using dropWhile_starts [of "\<lambda>d. \<not> is_alnum d" cs y ys] by simp
  with Cons show ?thesis using hyphen_not_alnum by auto
qed

lemma replace_no_double: "\<not> sublist ''--'' (replace_non_alnum s)"
proof (induction s rule: replace_non_alnum.induct)
  case 1
  then show ?case by simp
next
  case (2 c cs)
  show ?case
  proof (cases "is_alnum c")
    case True
    with 2 show ?thesis using hyphen_not_alnum by (auto simp: sublist_Cons_right)
  next
    case False
    have "replace_non_alnum (c # cs) =
            CHR ''-'' # replace_non_alnum (dropWhile (\<lambda>d. \<not> is_alnum d) cs)"
      using False by simp
    moreover have "\<not> sublist ''--'' (replace_non_alnum (dropWhile (\<lambda>d. \<not> is_alnum d) cs))"
      using 2 False by simp
    ultimately show ?thesis
      using replace_head_alnum [of cs] by (simp only: sublist_Cons_right Cons_prefix_Cons) simp
  qed
qed

lemma drop_trailing_prefix: "prefix (drop_trailing P s) s"
proof -
  have "s = rev (dropWhile P (rev s)) @ rev (takeWhile P (rev s))"
    by (metis rev_append rev_rev_ident takeWhile_dropWhile_id)
  then show ?thesis unfolding drop_trailing_def by (metis prefixI)
qed

lemma drop_trailing_last:
  "drop_trailing P s \<noteq> [] \<Longrightarrow> \<not> P (last (drop_trailing P s))"
  unfolding drop_trailing_def using hd_dropWhile [of P "rev s"] by (simp add: last_rev)

lemma drop_trailing_id: "s \<noteq> [] \<Longrightarrow> \<not> P (last s) \<Longrightarrow> drop_trailing P s = s"
proof -
  assume a: "s \<noteq> []" "\<not> P (last s)"
  then have "rev s \<noteq> []" "\<not> P (hd (rev s))" by (simp_all add: hd_rev)
  then have "dropWhile P (rev s) = rev s" by (cases "rev s") simp_all
  then show ?thesis by (simp add: drop_trailing_def)
qed

lemma drop_trailing_Nil: "drop_trailing P [] = []"
  by (simp add: drop_trailing_def)

lemma strip_sublist: "sublist (strip_hyphens s) s"
proof -
  have "sublist (strip_hyphens s) (dropWhile is_hyphen s)"
    unfolding strip_hyphens_def using drop_trailing_prefix by (rule prefix_imp_sublist)
  moreover have "sublist (dropWhile is_hyphen s) s"
    using suffix_dropWhile by (rule suffix_imp_sublist)
  ultimately show ?thesis by (rule sublist_order.order.trans)
qed

lemma strip_chars: "list_all P s \<Longrightarrow> list_all P (strip_hyphens s)"
  using set_mono_sublist [OF strip_sublist [of s]] by (auto simp: list_all_iff)

lemma strip_no_double: "\<not> sublist ''--'' s \<Longrightarrow> \<not> sublist ''--'' (strip_hyphens s)"
  using strip_sublist [of s] sublist_order.order.trans by blast

lemma strip_first: "\<not> prefix ''-'' (strip_hyphens s)"
proof
  assume "prefix ''-'' (strip_hyphens s)"
  then obtain zs where z: "strip_hyphens s = CHR ''-'' # zs" by (auto simp: prefix_def)
  have "prefix (strip_hyphens s) (dropWhile is_hyphen s)"
    unfolding strip_hyphens_def by (rule drop_trailing_prefix)
  with z obtain ws where "dropWhile is_hyphen s = CHR ''-'' # ws" by (auto simp: prefix_def)
  then show False using dropWhile_starts [of is_hyphen s] by (auto simp: is_hyphen_def)
qed

lemma strip_last: "\<not> suffix ''-'' (strip_hyphens s)"
proof
  assume "suffix ''-'' (strip_hyphens s)"
  then obtain zs where z: "strip_hyphens s = zs @ ''-''" by (auto simp: suffix_def)
  then have "strip_hyphens s \<noteq> []" "last (strip_hyphens s) = CHR ''-''" by simp_all
  then show False
    unfolding strip_hyphens_def using drop_trailing_last [of is_hyphen] by (auto simp: is_hyphen_def)
qed

lemma collapse_id: "\<not> sublist ''--'' s \<Longrightarrow> collapse_hyphens s = s"
proof (induction s rule: collapse_hyphens.induct)
  case 1
  then show ?case by simp
next
  case (2 c cs)
  show ?case
  proof (cases "is_hyphen c")
    case False
    with 2 show ?thesis by (auto simp: sublist_Cons_right)
  next
    case True
    then have c: "c = CHR ''-''" by (simp add: is_hyphen_def)
    have "dropWhile is_hyphen cs = cs"
    proof (cases cs)
      case Nil
      then show ?thesis by simp
    next
      case (Cons d ds)
      with "2.prems" c have "d \<noteq> CHR ''-''" by (auto simp: sublist_Cons_right)
      with Cons show ?thesis by (simp add: is_hyphen_def)
    qed
    moreover from "2.prems" have "\<not> sublist ''--'' cs" by (auto simp: sublist_Cons_right)
    ultimately show ?thesis using 2 True c by simp
  qed
qed

lemma normalize_eq: "normalized v = strip_hyphens (replace_non_alnum (toLowerCase (trim v)))"
  unfolding normalized_def by (rule collapse_id) (rule strip_no_double, rule replace_no_double)

lemma normalize_form: "normalized v \<noteq> [] \<Longrightarrow> slug_form (normalized v)"
  unfolding slug_form_def normalize_eq
  by (simp add: strip_chars replace_chars strip_no_double replace_no_double strip_first strip_last)

lemma placeholder_form: "slug_form (''blog-'' @ decimal n)"
proof -
  obtain d ds where d: "decimal n = d # ds" using decimal_nonempty [of n] by (cases "decimal n") auto
  have al: "list_all is_alnum (d # ds)" using decimal_alnum [of n] d by simp
  then have nh: "d \<noteq> CHR ''-''" "CHR ''-'' \<notin> set ds"
    using hyphen_not_alnum by (auto simp: list_all_iff)
  have "\<not> sublist ''--'' ds"
    using set_mono_sublist [of "''--''" ds] nh by auto
  then have nd: "\<not> sublist ''--'' (''blog-'' @ d # ds)"
    using nh by (auto simp: sublist_Cons_right)
  have "last (d # ds) \<noteq> CHR ''-''"
    using nh by (metis last_in_set list.distinct(1) set_ConsD)
  then have ns: "\<not> suffix ''-'' (''blog-'' @ d # ds)"
    by (auto simp: suffix_def) (metis append_assoc last_appendR last_snoc list.distinct(1) append_Cons append_Nil)
  have ch: "list_all is_slug_char (''blog-'' @ d # ds)"
    using al by (auto simp: list_all_iff is_slug_char_def is_alnum_def is_hyphen_def code_def)
  show ?thesis unfolding d slug_form_def using nd ns ch by simp
qed

lemma slug_form_trim: "slug_form r \<Longrightarrow> trim r = r"
proof -
  assume f: "slug_form r"
  then obtain c cs where r: "r = c # cs" by (cases r) (auto simp: slug_form_def)
  from f r have "\<not> is_space c" using slug_char_not_space by (auto simp: slug_form_def)
  then have 1: "dropWhile is_space r = r" using r by simp
  from f have "is_slug_char (last r)" by (auto simp: slug_form_def list_all_iff)
  then have "\<not> is_space (last r)" by (rule slug_char_not_space)
  then have "drop_trailing is_space r = r" using r drop_trailing_id by blast
  with 1 show ?thesis by (simp add: trim_def)
qed

lemma slug_form_lower: "slug_form r \<Longrightarrow> toLowerCase r = r"
  unfolding toLowerCase_def slug_form_def
  by (auto simp: list_all_iff lower_slug_char intro: map_idI)

lemma replace_id:
  "list_all is_slug_char r \<Longrightarrow> \<not> sublist ''--'' r \<Longrightarrow> replace_non_alnum r = r"
proof (induction r rule: replace_non_alnum.induct)
  case 1
  then show ?case by simp
next
  case (2 c cs)
  from "2.prems" have nd: "\<not> sublist ''--'' cs" and sc: "list_all is_slug_char cs"
    by (auto simp: sublist_Cons_right)
  show ?case
  proof (cases "is_alnum c")
    case True
    with 2 nd sc show ?thesis by simp
  next
    case False
    with "2.prems" have c: "c = CHR ''-''" by (simp add: is_slug_char_def is_hyphen_def)
    have "dropWhile (\<lambda>d. \<not> is_alnum d) cs = cs"
    proof (cases cs)
      case Nil
      then show ?thesis by simp
    next
      case (Cons d ds)
      with "2.prems" c have "d \<noteq> CHR ''-''" by (auto simp: sublist_Cons_right)
      moreover from sc Cons have "is_slug_char d" by simp
      ultimately have "is_alnum d" by (simp add: is_slug_char_def is_hyphen_def)
      with Cons show ?thesis by simp
    qed
    with 2 False nd sc c show ?thesis by simp
  qed
qed

lemma strip_id: "slug_form r \<Longrightarrow> strip_hyphens r = r"
proof -
  assume f: "slug_form r"
  then obtain c cs where r: "r = c # cs" by (cases r) (auto simp: slug_form_def)
  from f r have "\<not> is_hyphen c" by (auto simp: slug_form_def is_hyphen_def)
  then have 1: "dropWhile is_hyphen r = r" using r by simp
  have "last r \<noteq> CHR ''-''"
  proof
    assume "last r = CHR ''-''"
    then have "r = butlast r @ ''-''" using r by (metis append_butlast_last_id list.distinct(1))
    then have "suffix ''-'' r" by (metis suffixI)
    with f show False by (simp add: slug_form_def)
  qed
  then have "drop_trailing is_hyphen r = r"
    using r drop_trailing_id [of r is_hyphen] by (simp add: is_hyphen_def)
  with 1 show ?thesis by (simp add: strip_hyphens_def)
qed

lemma normalize_fixes_slug_form: "slug_form r \<Longrightarrow> normalized r = r"
proof -
  assume f: "slug_form r"
  then have "replace_non_alnum r = r" by (simp add: slug_form_def replace_id)
  with f show ?thesis
    by (simp add: normalize_eq slug_form_trim slug_form_lower strip_id)
qed

lemma createSlug_form: "slug_form (createSlug t v)"
  unfolding createSlug_def Let_def using normalize_form placeholder_form by (simp only: if_split) blast

lemma createSlug_fixes_slug_form: "slug_form r \<Longrightarrow> createSlug t r = r"
  by (simp add: createSlug_def Let_def normalize_fixes_slug_form slug_form_def)


section \<open>The slug generator: output format and idempotence\<close>

text \<open>
  C1.  Whatever the text given to \<open>createSlug\<close> and whatever the clock shows, the slug
  returned consists of characters of \<open>[a-z0-9-]\<close> only (so lower-casing it changes
  nothing), does not start with a hyphen, does not end with one, contains no two hyphens
  in a row and is not empty; and when the pipeline of trim, lower-case and the three
  replacements yields the empty string, the slug is \<open>blog-\<close> followed by the decimal
  digits of the timestamp.
\<close>

theorem createSlug_output:
  "list_all is_slug_char (createSlug t v)
   \<and> toLowerCase (createSlug t v) = createSlug t v
   \<and> \<not> prefix ''-'' (createSlug t v)
   \<and> \<not> suffix ''-'' (createSlug t v)
   \<and> \<not> sublist ''--'' (createSlug t v)
   \<and> createSlug t v \<noteq> []
   \<and> (normalized v = [] \<longrightarrow> createSlug t v = ''blog-'' @ decimal t)"
proof -
  have f: "slug_form (createSlug t v)" by (rule createSlug_form)
  then have "toLowerCase (createSlug t v) = createSlug t v" by (rule slug_form_lower)
  moreover have "normalized v = [] \<longrightarrow> createSlug t v = ''blog-'' @ decimal t"
    by (simp add: createSlug_def)
  ultimately show ?thesis using f unfolding slug_form_def by blast
qed

theorem createSlug_output_witness:
  "normalized ''   ***   '' = []
   \<and> createSlug 1730000000000 ''   ***   '' = ''blog-1730000000000''
   \<and> list_all is_slug_char (createSlug 0 ''Hello, World!'')"
proof -
  have h: "normalized ''   ***   '' = []" by code_simp
  have d: "decimal 1730000000000 = ''1730000000000''" by (simp add: decimal.simps) code_simp
  from createSlug_output [of 1730000000000 "''   ***   ''"] h
  have "createSlug 1730000000000 ''   ***   '' = ''blog-'' @ decimal 1730000000000" by blast
  with d h createSlug_output [of 0 "''Hello, World!''"] show ?thesis by simp
qed

text \<open>
  C9.  When the pipeline yields a non-empty result for \<open>s\<close>, so that the timestamp
  fallback is not taken, generating the slug of the slug of \<open>s\<close> gives the slug of
  \<open>s\<close> again, whatever the clock shows at the two calls.
\<close>

theorem createSlug_idempotent:
  "normalized s \<noteq> [] \<Longrightarrow> createSlug t' (createSlug t s) = createSlug t s"
  using createSlug_form [of t s] by (rule createSlug_fixes_slug_form)

theorem createSlug_idempotent_witness:
  "normalized ''Hello, World!'' \<noteq> []
   \<and> createSlug 7 (createSlug 5 ''Hello, World!'') = createSlug 5 ''Hello, World!''"
proof -
  have h: "normalized ''Hello, World!'' \<noteq> []" by code_simp
  from createSlug_idempotent [OF h, of 7 5] h show ?thesis by simp
qed


section \<open>Creating a post\<close>

lemma cast_slug_createSlug: "cast_slug (createSlug t v) = createSlug t v"
  using createSlug_form [of t v] by (simp add: cast_slug_def slug_form_trim slug_form_lower)

lemma find_slug_hit:
  "list_ex (\<lambda>b. slug b = createSlug t v) (blogs w) \<Longrightarrow> Blog_findOne_slug w (createSlug t v) \<noteq> None"
  by (auto simp: Blog_findOne_slug_def cast_slug_createSlug find_None_iff list_ex_iff)

lemma createBlog_checked_conflict:
  assumes "Blog_findOne_slug w (createSlug (now ev)
      (if truthy (body_slug req) then val (body_slug req) else val (body_title req))) \<noteq> None"
  shows "left (createBlog_checked ev w req img tr) = w"
proof (cases "Category_findById ev w (val (body_category req))")
  case (Inl e)
  then show ?thesis by (simp add: createBlog_checked_def left_def Let_def)
next
  case (Inr r)
  show ?thesis
  proof (cases r)
    case None
    with Inr show ?thesis by (simp add: createBlog_checked_def left_def Let_def)
  next
    case (Some c)
    with Inr assms show ?thesis
      by (auto simp: createBlog_checked_def left_def Let_def)
  qed
qed

lemma createBlog_checked_409:
  assumes "Blog_findOne_slug w (createSlug (now ev)
      (if truthy (body_slug req) then val (body_slug req) else val (body_title req))) \<noteq> None"
    and "truthy (body_title req)" "truthy (body_content req)"
      "truthy_num (body_readTime req)" "truthy (body_category req)" "truthy img"
    and "Category_findById ev w (val (body_category req)) = Inr (Some c)"
  shows "sent (createBlog_checked ev w req img tr) =
           respond 409 False (Some ''Slug already exists'') None NoData"
  using assms by (auto simp: createBlog_checked_def sent_def Let_def)


text \<open>
  C4.  When the slug computed for a create request (the slug generator applied to the
  explicit slug if one is supplied, to the title otherwise) is the slug of a post in
  the store, no post is written; and when the request passes the steps before the slug
  check, the response is the conflict response: status 409, \<open>Slug already exists\<close>.
\<close>

theorem createBlog_slug_conflict:
  "list_ex (\<lambda>b. slug b = createSlug (now ev)
      (if truthy (body_slug req) then val (body_slug req) else val (body_title req))) (blogs w)
   \<Longrightarrow> left (createBlog ev w req) = w
       \<and> (passes_to_slug_check ev w req \<longrightarrow>
            sent (createBlog ev w req) =
              respond 409 False (Some ''Slug already exists'') None NoData)"
proof -
  let ?s = "createSlug (now ev)
      (if truthy (body_slug req) then val (body_slug req) else val (body_title req))"
  assume a: "list_ex (\<lambda>b. slug b = ?s) (blogs w)"
  then have hit: "Blog_findOne_slug w ?s \<noteq> None" by (rule find_slug_hit)
  note unchanged = createBlog_checked_conflict [OF hit]
  have 1: "left (createBlog ev w req) = w"
  proof (cases "req_file req")
    case None
    then show ?thesis using unchanged by (simp add: createBlog_def)
  next
    case (Some buffer)
    then show ?thesis using unchanged
      by (cases "uploadBlogImage ev buffer") (simp_all add: createBlog_def left_def)
  qed
  have 2: "sent (createBlog ev w req) = respond 409 False (Some ''Slug already exists'') None NoData"
    if p: "passes_to_slug_check ev w req"
  proof -
    from p obtain c where c: "Category_findById ev w (val (body_category req)) = Inr (Some c)"
      by (auto simp: passes_to_slug_check_def split: sum.splits option.splits)
    from p have t: "truthy (body_title req)" "truthy (body_content req)"
      "truthy_num (body_readTime req)" "truthy (body_category req)"
      by (simp_all add: passes_to_slug_check_def)
    show ?thesis
    proof (cases "req_file req")
      case None
      with p have "truthy (body_blogImage req)" by (simp add: passes_to_slug_check_def)
      with None show ?thesis
        using createBlog_checked_409 [OF hit t _ c] by (simp add: createBlog_def)
    next
      case (Some buffer)
      with p obtain url where u: "uploadBlogImage ev buffer = Inr url" "url \<noteq> []"
        by (auto simp: passes_to_slug_check_def split: sum.splits)
      then have "truthy (Some url)" by (simp add: truthy_def)
      with Some u show ?thesis
        using createBlog_checked_409 [OF hit t _ c] by (simp add: createBlog_def)
    qed
  qed
  from 1 2 show ?thesis by blast
qed

theorem createBlog_slug_conflict_witness:
  "list_ex (\<lambda>b. slug b = createSlug (now example_env)
      (if truthy (body_slug example_create) then val (body_slug example_create)
       else val (body_title example_create))) (blogs example_world)
   \<and> passes_to_slug_check example_env example_world example_create
   \<and> left (createBlog example_env example_world example_create) = example_world
   \<and> status (sent (createBlog example_env example_world example_create)) = 409"
proof -
  have a: "list_ex (\<lambda>b. slug b = createSlug (now example_env)
      (if truthy (body_slug example_create) then val (body_slug example_create)
       else val (body_title example_create))) (blogs example_world)"
    by code_simp
  have p: "passes_to_slug_check example_env example_world example_create" by code_simp
  from createBlog_slug_conflict [OF a] p a show ?thesis by (simp add: respond_def)
qed


text \<open>
  C5.  When a create request carries an image file and the upload of the file fails, the
  response is status 500, \<open>Error uploading image\<close>, with the message of the failure;
  the store is left as it was and the upload is the only call made, so no record is
  written.
\<close>

theorem createBlog_upload_failure:
  "req_file req = Some buffer \<Longrightarrow> uploadBlogImage ev buffer = Inl msg \<Longrightarrow>
   createBlog ev w req =
     (respond 500 False (Some ''Error uploading image'') (Some (Message msg)) NoData,
      w, [UploadBlogImage buffer])"
  by (simp add: createBlog_def)

theorem createBlog_upload_failure_witness:
  "req_file example_create = Some ''JPEGDATA''
   \<and> uploadBlogImage failing_env ''JPEGDATA'' = Inl ''upload timed out''
   \<and> createBlog failing_env example_world example_create =
     (respond 500 False (Some ''Error uploading image'') (Some (Message ''upload timed out''))
        NoData,
      example_world, [UploadBlogImage ''JPEGDATA''])"
proof -
  have f: "req_file example_create = Some ''JPEGDATA''" by (simp add: example_create_def)
  have u: "uploadBlogImage failing_env ''JPEGDATA'' = Inl ''upload timed out''"
    by (simp add: failing_env_def example_env_def)
  from createBlog_upload_failure [OF f u] f u show ?thesis by simp
qed

lemma createBlog_checked_invalid:
  "\<not> truthy (body_title req) \<or> \<not> truthy (body_content req)
     \<or> \<not> truthy_num (body_readTime req) \<or> \<not> truthy (body_category req) \<Longrightarrow>
   createBlog_checked ev w req img tr =
     (respond 400 False (Some ''Title, content, readTime, and category are required'')
        None NoData, w, tr)"
  unfolding createBlog_checked_def by (simp only: if_True)

text \<open>
  C10.  When a create request carries an image file and one of title, content, readTime
  and category is missing, the upload of the file is the one call the handler makes: it
  comes before the check of the required fields.  Nothing is written to the store, and
  when the upload has succeeded the response is the validation failure (status 400),
  with no call that would remove the image just stored.
\<close>

theorem createBlog_upload_precedes_validation:
  assumes "req_file req = Some buffer"
    and "\<not> truthy (body_title req) \<or> \<not> truthy (body_content req)
     \<or> \<not> truthy_num (body_readTime req) \<or> \<not> truthy (body_category req)"
  shows "calls (createBlog ev w req) = [UploadBlogImage buffer]
   \<and> left (createBlog ev w req) = w
   \<and> (\<forall>url. uploadBlogImage ev buffer = Inr url \<longrightarrow>
          sent (createBlog ev w req) =
            respond 400 False (Some ''Title, content, readTime, and category are required'')
              None NoData)"
proof (cases "uploadBlogImage ev buffer")
  case (Inl msg)
  with assms(1) show ?thesis by (simp add: createBlog_def calls_def left_def)
next
  case (Inr url)
  with assms(1) createBlog_checked_invalid [OF assms(2)] show ?thesis
    by (simp add: createBlog_def calls_def left_def sent_def)
qed

theorem createBlog_upload_precedes_validation_witness:
  "req_file (example_create\<lparr>body_content := None\<rparr>) = Some ''JPEGDATA''
   \<and> \<not> truthy (body_content (example_create\<lparr>body_content := None\<rparr>))
   \<and> uploadBlogImage example_env ''JPEGDATA'' = Inr ''https://res.cloudinary.com/demo/JPEGDATA''
   \<and> calls (createBlog example_env example_world (example_create\<lparr>body_content := None\<rparr>))
       = [UploadBlogImage ''JPEGDATA'']
   \<and> status (sent (createBlog example_env example_world (example_create\<lparr>body_content := None\<rparr>)))
       = 400"
proof -
  have f: "req_file (example_create\<lparr>body_content := None\<rparr>) = Some ''JPEGDATA''"
    by (simp add: example_create_def)
  have m: "\<not> truthy (body_content (example_create\<lparr>body_content := None\<rparr>))"
    by (simp add: truthy_def)
  have u: "uploadBlogImage example_env ''JPEGDATA'' = Inr ''https://res.cloudinary.com/demo/JPEGDATA''"
    by (simp add: example_env_def)
  from createBlog_upload_precedes_validation [OF f, of example_env example_world] m u f
  show ?thesis by (simp add: respond_def)
qed


section \<open>Deleting a post\<close>

lemma find_remove_first:
  "distinct (map blog_id bs) \<Longrightarrow>
   find (\<lambda>d. blog_id d = i) (remove_first (\<lambda>d. blog_id d = i) bs) = None"
proof (induction bs)
  case Nil
  then show ?case by simp
next
  case (Cons b bs)
  show ?case
  proof (cases "blog_id b = i")
    case True
    with Cons.prems have "i \<notin> blog_id ` set bs" by auto
    then have "find (\<lambda>d. blog_id d = i) bs = None" by (auto simp: find_None_iff)
    with True show ?thesis by simp
  next
    case False
    with Cons show ?thesis by simp
  qed
qed

lemma Blog_findById_Some:
  assumes "Blog_findById ev w i = Inr (Some b)"
  shows "castObjectId ev i = Some (blog_id b)"
    and "find (\<lambda>d. blog_id d = blog_id b) (blogs w) = Some b"
proof -
  from assms obtain oid where o: "castObjectId ev i = Some oid"
    and f: "find (\<lambda>d. blog_id d = oid) (blogs w) = Some b"
    by (auto simp: Blog_findById_def split: option.splits)
  from f have "blog_id b = oid" by (auto simp: find_Some_iff)
  with o f show "castObjectId ev i = Some (blog_id b)"
    and "find (\<lambda>d. blog_id d = blog_id b) (blogs w) = Some b" by simp_all
qed

text \<open>
  C6, as stated, fails.  In the example the post \<open>post_hello\<close> exists, its image URL
  contains \<open>cloudinary.com\<close> and the deletion of the image throws: the handler answers
  with status 500, both posts are still in the store, and the calls made are the lookup
  and the image deletion, with no call that deletes the record.
\<close>

theorem deleteBlog_asset_failure_counterexample:
  "Blog_findById failing_env example_world ''64b0000000000000000000b1'' = Inr (Some post_hello)
   \<and> sublist ''cloudinary.com'' (blogImage post_hello)
   \<and> deleteImageFromCloudinary failing_env (blogImage post_hello) = Some ''destroy failed''
   \<and> status (sent (deleteBlog failing_env example_world ''64b0000000000000000000b1'')) = 500
   \<and> blogs (left (deleteBlog failing_env example_world ''64b0000000000000000000b1''))
       = [post_hello, post_goa]
   \<and> calls (deleteBlog failing_env example_world ''64b0000000000000000000b1'')
       = [BlogFindById ''64b0000000000000000000b1'',
          DeleteImageFromCloudinary ''https://res.cloudinary.com/demo/hello.jpg'']"
  by code_simp

text \<open>
  C6, amended.  For a delete request on an existing post whose image URL contains
  \<open>cloudinary.com\<close>, in a store whose ids are distinct: when the deletion of the image
  returns, the record is deleted, the response is \<open>Blog deleted successfully\<close> and no
  post with the id of the deleted post is in the store afterwards, and a lookup by the
  id of the request finds nothing; when the deletion of the image throws,
  the response is status 500, \<open>Error deleting blog\<close>, with the message of the failure,
  the record is not deleted and the store is left as it was.
\<close>

theorem deleteBlog_managed_image:
  assumes "Blog_findById ev w i = Inr (Some b)"
    and "sublist ''cloudinary.com'' (blogImage b)"
    and "distinct (map blog_id (blogs w))"
  shows "(deleteImageFromCloudinary ev (blogImage b) = None \<longrightarrow>
            sent (deleteBlog ev w i) =
              respond 200 True (Some ''Blog deleted successfully'') None NoData
            \<and> find (\<lambda>d. blog_id d = blog_id b) (blogs (left (deleteBlog ev w i))) = None
            \<and> Blog_findById ev (left (deleteBlog ev w i)) i = Inr None
            \<and> calls (deleteBlog ev w i) =
                [BlogFindById i, DeleteImageFromCloudinary (blogImage b),
                 BlogFindByIdAndDelete i])
         \<and> (\<forall>msg. deleteImageFromCloudinary ev (blogImage b) = Some msg \<longrightarrow>
              deleteBlog ev w i =
                (respond 500 False (Some ''Error deleting blog'') (Some (Message msg)) NoData,
                 w, [BlogFindById i, DeleteImageFromCloudinary (blogImage b)]))"
proof -
  note v = Blog_findById_Some(1) [OF assms(1)]
  have gone: "find (\<lambda>d. blog_id d = blog_id b)
                (remove_first (\<lambda>d. blog_id d = blog_id b) (blogs w)) = None"
    using assms(3) by (rule find_remove_first)
  show ?thesis
  proof (cases "deleteImageFromCloudinary ev (blogImage b)")
    case None
    with assms(1,2) v gone show ?thesis
      by (simp add: deleteBlog_def deleteBlog_record_def Blog_findByIdAndDelete_def
                    Blog_findById_def sent_def left_def calls_def)
  next
    case (Some msg)
    with assms(1,2) show ?thesis by (simp add: deleteBlog_def)
  qed
qed

theorem deleteBlog_managed_image_witness:
  "Blog_findById example_env example_world ''64B0000000000000000000B1'' = Inr (Some post_hello)
   \<and> sublist ''cloudinary.com'' (blogImage post_hello)
   \<and> distinct (map blog_id (blogs example_world))
   \<and> deleteImageFromCloudinary example_env (blogImage post_hello) = None
   \<and> status (sent (deleteBlog example_env example_world ''64B0000000000000000000B1'')) = 200
   \<and> find (\<lambda>d. blog_id d = ''64b0000000000000000000b1'')
        (blogs (left (deleteBlog example_env example_world ''64B0000000000000000000B1''))) = None
   \<and> Blog_findById example_env
        (left (deleteBlog example_env example_world ''64B0000000000000000000B1''))
        ''64B0000000000000000000B1'' = Inr None"
proof -
  have f: "Blog_findById example_env example_world ''64B0000000000000000000B1'' = Inr (Some post_hello)"
    by code_simp
  have s: "sublist ''cloudinary.com'' (blogImage post_hello)" by code_simp
  have d: "distinct (map blog_id (blogs example_world))" by code_simp
  have n: "deleteImageFromCloudinary example_env (blogImage post_hello) = None"
    by (simp add: example_env_def)
  have i: "blog_id post_hello = ''64b0000000000000000000b1''" by (simp add: post_hello_def)
  from deleteBlog_managed_image [OF f s d] n f s d i show ?thesis by (simp add: respond_def)
qed


section \<open>Fetching one post\<close>

text \<open>
  C7.  For one identifier: the lookup by id is made, and made first, exactly when the
  identifier has the format of an id; the lookup by slug is made with the same
  identifier exactly when the lookup by id yields nothing (it was not made, or it found
  no post); the response is \<open>Blog not found\<close> (status 404) if and only if both lookups
  miss, and otherwise it is the post the first successful lookup found.
\<close>

theorem getBlogById_lookup_order:
  "calls (getBlogById ev w i) =
     (if isValid ev i then [BlogFindById i] else [])
     @ (if isValid ev i \<and> Blog_findById ev w i \<noteq> Inr None then [] else [BlogFindOne i])
   \<and> (sent (getBlogById ev w i) = respond 404 False (Some ''Blog not found'') None NoData
        \<longleftrightarrow> (\<not> isValid ev i \<or> Blog_findById ev w i = Inr None)
            \<and> Blog_findOne_slug w i = None)
   \<and> (status (sent (getBlogById ev w i)) = 404
        \<longleftrightarrow> (\<not> isValid ev i \<or> Blog_findById ev w i = Inr None)
            \<and> Blog_findOne_slug w i = None)
   \<and> (\<forall>b. isValid ev i \<and> Blog_findById ev w i = Inr (Some b) \<longrightarrow>
          sent (getBlogById ev w i) = respond 200 True None None (Doc (populate w b)))
   \<and> (\<forall>b. (\<not> isValid ev i \<or> Blog_findById ev w i = Inr None)
            \<and> Blog_findOne_slug w i = Some b \<longrightarrow>
          sent (getBlogById ev w i) = respond 200 True None None (Doc (populate w b)))"
proof (cases "isValid ev i")
  case False
  then show ?thesis
    by (cases "Blog_findOne_slug w i")
       (simp_all add: getBlogById_def calls_def sent_def respond_def)
next
  case True
  then obtain r where r: "Blog_findById ev w i = Inr r"
    by (auto simp: Blog_findById_def isValid_def)
  show ?thesis
  proof (cases r)
    case (Some b)
    with True r show ?thesis
      by (simp add: getBlogById_def calls_def sent_def respond_def)
  next
    case None
    with True r show ?thesis
      by (cases "Blog_findOne_slug w i")
         (simp_all add: getBlogById_def calls_def sent_def respond_def)
  qed
qed

theorem getBlogById_lookup_order_witness:
  "isValid example_env ''64b0000000000000000000b3''
   \<and> Blog_findById example_env example_world ''64b0000000000000000000b3'' = Inr None
   \<and> Blog_findOne_slug example_world ''64b0000000000000000000b3'' = None
   \<and> calls (getBlogById example_env example_world ''64b0000000000000000000b3'')
       = [BlogFindById ''64b0000000000000000000b3'', BlogFindOne ''64b0000000000000000000b3'']
   \<and> status (sent (getBlogById example_env example_world ''64b0000000000000000000b3'')) = 404
   \<and> \<not> isValid example_env ''goa-trip''
   \<and> Blog_findOne_slug example_world ''goa-trip'' = Some post_goa
   \<and> calls (getBlogById example_env example_world ''goa-trip'') = [BlogFindOne ''goa-trip'']
   \<and> sent (getBlogById example_env example_world ''goa-trip'') =
       respond 200 True None None (Doc (populate example_world post_goa))
   \<and> isValid example_env ''64B0000000000000000000B1''
   \<and> Blog_findById example_env example_world ''64B0000000000000000000B1'' = Inr (Some post_hello)
   \<and> calls (getBlogById example_env example_world ''64B0000000000000000000B1'')
       = [BlogFindById ''64B0000000000000000000B1'']
   \<and> sent (getBlogById example_env example_world ''64B0000000000000000000B1'') =
       respond 200 True None None (Doc (populate example_world post_hello))"
proof -
  have v: "isValid example_env ''64b0000000000000000000b3''" by code_simp
  have m: "Blog_findById example_env example_world ''64b0000000000000000000b3'' = Inr None"
    by code_simp
  have s: "Blog_findOne_slug example_world ''64b0000000000000000000b3'' = None" by code_simp
  have v2: "\<not> isValid example_env ''goa-trip''" by code_simp
  have s2: "Blog_findOne_slug example_world ''goa-trip'' = Some post_goa" by code_simp
  have v3: "isValid example_env ''64B0000000000000000000B1''" by code_simp
  have m3: "Blog_findById example_env example_world ''64B0000000000000000000B1''
              = Inr (Some post_hello)"
    by code_simp
  from getBlogById_lookup_order [of example_env example_world "''64b0000000000000000000b3''"]
       v m s
  have r1: "calls (getBlogById example_env example_world ''64b0000000000000000000b3'')
       = [BlogFindById ''64b0000000000000000000b3'', BlogFindOne ''64b0000000000000000000b3'']
     \<and> status (sent (getBlogById example_env example_world ''64b0000000000000000000b3'')) = 404"
    by (simp add: respond_def)
  from getBlogById_lookup_order [of example_env example_world "''goa-trip''"] v2 s2
  have r2: "calls (getBlogById example_env example_world ''goa-trip'') = [BlogFindOne ''goa-trip'']
     \<and> sent (getBlogById example_env example_world ''goa-trip'') =
       respond 200 True None None (Doc (populate example_world post_goa))"
    by simp
  from getBlogById_lookup_order [of example_env example_world "''64B0000000000000000000B1''"]
       v3 m3
  have r3: "calls (getBlogById example_env example_world ''64B0000000000000000000B1'')
       = [BlogFindById ''64B0000000000000000000B1'']
     \<and> sent (getBlogById example_env example_world ''64B0000000000000000000B1'') =
       respond 200 True None None (Doc (populate example_world post_hello))"
    by simp
  from v m s v2 s2 v3 m3 r1 r2 r3 show ?thesis by blast
qed


section \<open>Updating a post\<close>

lemma updateBlog_write_status: "status (sent (updateBlog_write ev w i u tr)) \<noteq> 409"
proof (cases "Blog_findByIdAndUpdate ev w i u")
  case (Inl e)
  then show ?thesis by (simp add: updateBlog_write_def sent_def respond_def)
next
  case (Inr r)
  obtain w' b where "r = (w', b)" by (cases r)
  with Inr show ?thesis
    by (cases b) (simp_all add: updateBlog_write_def sent_def respond_def)
qed

lemma updateBlog_lift:
  assumes "\<And>img tr. P (updateBlog_slug ev w i req img tr)"
    and "\<And>st msg e tr. st \<noteq> 409 \<Longrightarrow> P (respond st False msg e NoData, w, tr)"
  shows "P (updateBlog ev w i req)"
proof -
  have cat: "P (updateBlog_category ev w i req img tr)" for img tr
  proof (cases "truthy (upd_category req)")
    case False
    then show ?thesis using assms(1) by (simp add: updateBlog_category_def)
  next
    case True
    show ?thesis
    proof (cases "Category_findById ev w (val (upd_category req))")
      case (Inl e)
      with True show ?thesis using assms(2) by (simp add: updateBlog_category_def Let_def)
    next
      case (Inr r)
      with True show ?thesis using assms
        by (cases r) (simp_all add: updateBlog_category_def Let_def)
    qed
  qed
  show ?thesis
  proof (cases "upd_file req")
    case None
    then show ?thesis using cat by (simp add: updateBlog_def)
  next
    case (Some buffer)
    then show ?thesis using cat assms(2)
      by (cases "uploadBlogImage ev buffer") (simp_all add: updateBlog_def)
  qed
qed

lemma own_slug_no_other:
  assumes "p \<in> set bs" "distinct (map slug bs)"
  shows "find (\<lambda>b. slug b = slug p \<and> blog_id b \<noteq> blog_id p) bs = None"
proof -
  from assms(2) have "inj_on slug (set bs)" by (simp add: distinct_map)
  with assms(1) have "b \<in> set bs \<Longrightarrow> slug b = slug p \<Longrightarrow> blog_id b = blog_id p" for b
    by (auto dest: inj_onD)
  then show ?thesis by (auto simp: find_None_iff)
qed

lemma normalized_own_slug:
  assumes "normalized s = s" "s \<noteq> []"
  shows "createSlug t s = s" "cast_slug s = s"
proof -
  from assms show 1: "createSlug t s = s" by (simp add: createSlug_def)
  from cast_slug_createSlug [of t s] 1 show "cast_slug s = s" by simp
qed

lemma updateBlog_slug_own:
  assumes "p \<in> set (blogs w)" "castObjectId ev i = Some (blog_id p)"
    and "distinct (map slug (blogs w))"
    and "upd_slug req = Some (slug p)" "normalized (slug p) = slug p"
  shows "status (sent (updateBlog_slug ev w i req img tr)) \<noteq> 409"
proof (cases "slug p = []")
  case True
  with assms(4) show ?thesis
    using updateBlog_write_status by (simp add: updateBlog_slug_def truthy_def)
next
  case False
  note ns = normalized_own_slug [OF assms(5) False]
  from assms(4) False have t: "truthy (upd_slug req)" "val (upd_slug req) = slug p"
    by (simp_all add: truthy_def val_def)
  from t ns assms(2) own_slug_no_other [OF assms(1,3)] show ?thesis
    using updateBlog_write_status
    by (simp add: updateBlog_slug_def Let_def Blog_findOne_slug_other_def)
qed

lemma updateBlog_slug_conflict:
  assumes "truthy (upd_slug req)" "castObjectId ev i = Some oid"
    and "list_ex (\<lambda>b. blog_id b \<noteq> oid \<and> slug b = createSlug (now ev) (val (upd_slug req)))
           (blogs w)"
  shows "updateBlog_slug ev w i req img tr =
           (respond 409 False (Some ''Slug already exists'') None NoData, w,
            tr @ [BlogFindOneOther (createSlug (now ev) (val (upd_slug req))) i])"
proof -
  from assms(3) have
    "find (\<lambda>b. slug b = cast_slug (createSlug (now ev) (val (upd_slug req))) \<and> blog_id b \<noteq> oid)
       (blogs w) \<noteq> None"
    by (auto simp: find_None_iff list_ex_iff cast_slug_createSlug)
  then obtain b where
    "Blog_findOne_slug_other ev w (createSlug (now ev) (val (upd_slug req))) i = Inr (Some b)"
    using assms(2) by (auto simp: Blog_findOne_slug_other_def)
  with assms(1) show ?thesis by (simp add: updateBlog_slug_def Let_def)
qed

lemma find_by_id:
  "distinct (map blog_id bs) \<Longrightarrow> p \<in> set bs \<Longrightarrow> find (\<lambda>b. blog_id b = blog_id p) bs = Some p"
  by (induction bs) auto

lemma updateBlog_own_slug_only:
  assumes "p \<in> set (blogs w)" "castObjectId ev i = Some (blog_id p)"
    and "distinct (map blog_id (blogs w))" "distinct (map slug (blogs w))"
    and "normalized (slug p) = slug p" "slug p \<noteq> []" "length (slug p) \<le> 220"
  shows "updateBlog ev w i (slug_only (slug p)) =
           (respond 200 True (Some ''Blog updated successfully'') None
              (Doc (populate
                      (w\<lparr>blogs := replace_first (\<lambda>b. blog_id b = blog_id p)
                                     (p\<lparr>updatedAt := int (now ev)\<rparr>) (blogs w)\<rparr>)
                      (p\<lparr>updatedAt := int (now ev)\<rparr>))),
            w\<lparr>blogs := replace_first (\<lambda>b. blog_id b = blog_id p)
                           (p\<lparr>updatedAt := int (now ev)\<rparr>) (blogs w)\<rparr>,
            [BlogFindOneOther (slug p) i, BlogFindByIdAndUpdate i])"
proof -
  note ns = normalized_own_slug [OF assms(5,6)]
  have other: "find (\<lambda>b. slug b = slug p \<and> blog_id b \<noteq> blog_id p) (blogs w) = None"
    using assms(1,4) by (rule own_slug_no_other)
  then have nodup: "\<not> list_ex (\<lambda>b. blog_id b \<noteq> blog_id p \<and> slug b = slug p) (blogs w)"
    by (auto simp: find_None_iff list_ex_iff)
  have found: "find (\<lambda>b. blog_id b = blog_id p) (blogs w) = Some p"
    using assms(3,1) by (rule find_by_id)
  let ?u = "(updateBlog_data (slug_only (slug p)) None)\<lparr>set_slug := Some (slug p)\<rparr>"
  have cu: "cast_update ev ?u = Some ?u"
    by (simp add: cast_update_def updateBlog_data_def slug_only_def truthy_def truthy_num_def ns)
  have uv: "update_valid ?u"
    using assms(6,7)
    by (simp add: update_valid_def updateBlog_data_def slug_only_def truthy_def truthy_num_def)
  have au: "apply_update ?u p = p"
    by (simp add: apply_update_def updateBlog_data_def slug_only_def truthy_def truthy_num_def
                  or_default_def)
  have wr: "Blog_findByIdAndUpdate ev w i ?u =
              Inr (w\<lparr>blogs := replace_first (\<lambda>b. blog_id b = blog_id p)
                                 (p\<lparr>updatedAt := int (now ev)\<rparr>) (blogs w)\<rparr>,
                   Some (p\<lparr>updatedAt := int (now ev)\<rparr>))"
    using assms(2) uv found nodup by (simp add: Blog_findByIdAndUpdate_def cu au Let_def)
  have sl: "updateBlog_slug ev w i (slug_only (slug p)) None [] =
              updateBlog_write ev w i ?u [BlogFindOneOther (slug p) i]"
    using assms(2,6) other ns
    by (simp add: updateBlog_slug_def Let_def Blog_findOne_slug_other_def slug_only_def
                  truthy_def val_def)
  have "updateBlog ev w i (slug_only (slug p)) =
          updateBlog_slug ev w i (slug_only (slug p)) None []"
    by (simp add: updateBlog_def updateBlog_category_def slug_only_def truthy_def)
  with sl wr show ?thesis by (simp add: updateBlog_write_def)
qed

text \<open>
  C8.  For an update request that supplies a slug, the slug is normalized and looked up
  among the posts other than the one being updated, which is the post whose id is the
  ObjectId the id of the request casts to.  When the request reaches the slug check and
  the normalized slug is the slug of a different post, the response is the conflict
  response (status 409, \<open>Slug already exists\<close>) and nothing is written.  When the slug
  supplied is the current, already normalized slug of the post being updated, in a
  store whose slugs are distinct, the response is never the conflict response; and a
  request that supplies this slug and nothing else succeeds: the response is
  \<open>Blog updated successfully\<close> with the post, and the slugs in the store are as before.
\<close>

theorem updateBlog_slug_uniqueness:
  "(truthy (upd_slug req) \<and> update_reaches_slug_check ev w req
     \<and> castObjectId ev i = Some oid
     \<and> list_ex (\<lambda>b. blog_id b \<noteq> oid \<and> slug b = createSlug (now ev) (val (upd_slug req)))
          (blogs w)
    \<longrightarrow> sent (updateBlog ev w i req) =
          respond 409 False (Some ''Slug already exists'') None NoData
        \<and> left (updateBlog ev w i req) = w)
   \<and> (p \<in> set (blogs w) \<and> castObjectId ev i = Some (blog_id p)
       \<and> distinct (map slug (blogs w))
       \<and> upd_slug req = Some (slug p) \<and> normalized (slug p) = slug p
    \<longrightarrow> status (sent (updateBlog ev w i req)) \<noteq> 409)
   \<and> (p \<in> set (blogs w) \<and> castObjectId ev i = Some (blog_id p)
       \<and> distinct (map blog_id (blogs w)) \<and> distinct (map slug (blogs w))
       \<and> normalized (slug p) = slug p \<and> slug p \<noteq> [] \<and> length (slug p) \<le> 220
    \<longrightarrow> sent (updateBlog ev w i (slug_only (slug p))) =
          respond 200 True (Some ''Blog updated successfully'') None
            (Doc (populate (left (updateBlog ev w i (slug_only (slug p))))
                    (p\<lparr>updatedAt := int (now ev)\<rparr>)))
        \<and> map slug (blogs (left (updateBlog ev w i (slug_only (slug p))))) = map slug (blogs w))"
proof (intro conjI impI)
  assume a: "truthy (upd_slug req) \<and> update_reaches_slug_check ev w req
     \<and> castObjectId ev i = Some oid
     \<and> list_ex (\<lambda>b. blog_id b \<noteq> oid \<and> slug b = createSlug (now ev) (val (upd_slug req)))
          (blogs w)"
  then have c: "updateBlog_slug ev w i req img tr =
           (respond 409 False (Some ''Slug already exists'') None NoData, w,
            tr @ [BlogFindOneOther (createSlug (now ev) (val (upd_slug req))) i])" for img tr
    using updateBlog_slug_conflict by blast
  have cat: "updateBlog_category ev w i req img tr =
               updateBlog_slug ev w i req img
                 (tr @ (if truthy (upd_category req)
                        then [CategoryFindById (val (upd_category req))] else []))" for img tr
    using a
    by (auto simp: update_reaches_slug_check_def updateBlog_category_def Let_def
             split: sum.splits option.splits if_splits)
  have "fst (updateBlog ev w i req) = respond 409 False (Some ''Slug already exists'') None NoData
        \<and> fst (snd (updateBlog ev w i req)) = w"
  proof (cases "upd_file req")
    case None
    then show ?thesis by (simp add: updateBlog_def cat c)
  next
    case (Some buffer)
    with a obtain url where "uploadBlogImage ev buffer = Inr url"
      by (auto simp: update_reaches_slug_check_def split: sum.splits)
    with Some show ?thesis by (simp add: updateBlog_def cat c)
  qed
  then show "sent (updateBlog ev w i req) =
          respond 409 False (Some ''Slug already exists'') None NoData"
    and "left (updateBlog ev w i req) = w"
    by (simp_all add: sent_def left_def)
next
  assume b: "p \<in> set (blogs w) \<and> castObjectId ev i = Some (blog_id p)
       \<and> distinct (map slug (blogs w))
       \<and> upd_slug req = Some (slug p) \<and> normalized (slug p) = slug p"
  show "status (sent (updateBlog ev w i req)) \<noteq> 409"
  proof (rule updateBlog_lift)
    fix img tr
    from b show "status (sent (updateBlog_slug ev w i req img tr)) \<noteq> 409"
      using updateBlog_slug_own by blast
  next
    fix st :: nat and msg e tr
    assume "st \<noteq> 409"
    then show "status (sent (respond st False msg e NoData, w, tr)) \<noteq> 409"
      by (simp add: sent_def respond_def)
  qed
next
  assume c: "p \<in> set (blogs w) \<and> castObjectId ev i = Some (blog_id p)
       \<and> distinct (map blog_id (blogs w)) \<and> distinct (map slug (blogs w))
       \<and> normalized (slug p) = slug p \<and> slug p \<noteq> [] \<and> length (slug p) \<le> 220"
  then have eq: "updateBlog ev w i (slug_only (slug p)) =
           (respond 200 True (Some ''Blog updated successfully'') None
              (Doc (populate
                      (w\<lparr>blogs := replace_first (\<lambda>b. blog_id b = blog_id p)
                                     (p\<lparr>updatedAt := int (now ev)\<rparr>) (blogs w)\<rparr>)
                      (p\<lparr>updatedAt := int (now ev)\<rparr>))),
            w\<lparr>blogs := replace_first (\<lambda>b. blog_id b = blog_id p)
                           (p\<lparr>updatedAt := int (now ev)\<rparr>) (blogs w)\<rparr>,
            [BlogFindOneOther (slug p) i, BlogFindByIdAndUpdate i])"
    using updateBlog_own_slug_only by blast
  show "sent (updateBlog ev w i (slug_only (slug p))) =
          respond 200 True (Some ''Blog updated successfully'') None
            (Doc (populate (left (updateBlog ev w i (slug_only (slug p))))
                    (p\<lparr>updatedAt := int (now ev)\<rparr>)))"
    by (simp add: eq sent_def left_def)
  have "map slug (replace_first (\<lambda>b. blog_id b = blog_id p) (p\<lparr>updatedAt := int (now ev)\<rparr>) bs)
          = map slug bs" if "\<forall>b\<in>set bs. blog_id b = blog_id p \<longrightarrow> b = p" for bs
    using that by (induction bs) auto
  moreover have "\<forall>b\<in>set (blogs w). blog_id b = blog_id p \<longrightarrow> b = p"
  proof -
    from c have "inj_on blog_id (set (blogs w))" by (simp add: distinct_map)
    with c show ?thesis by (auto dest: inj_onD)
  qed
  ultimately show "map slug (blogs (left (updateBlog ev w i (slug_only (slug p))))) = map slug (blogs w)"
    by (simp add: eq left_def)
qed

theorem updateBlog_slug_uniqueness_witness:
  "truthy (upd_slug (slug_only ''Goa Trip''))
   \<and> update_reaches_slug_check example_env example_world (slug_only ''Goa Trip'')
   \<and> castObjectId example_env ''64B0000000000000000000B1'' = Some ''64b0000000000000000000b1''
   \<and> list_ex (\<lambda>b. blog_id b \<noteq> ''64b0000000000000000000b1''
                  \<and> slug b = createSlug (now example_env) (val (upd_slug (slug_only ''Goa Trip''))))
         (blogs example_world)
   \<and> status (sent (updateBlog example_env example_world ''64B0000000000000000000B1''
                     (slug_only ''Goa Trip''))) = 409
   \<and> post_hello \<in> set (blogs example_world)
   \<and> blog_id post_hello = ''64b0000000000000000000b1''
   \<and> distinct (map blog_id (blogs example_world))
   \<and> distinct (map slug (blogs example_world))
   \<and> upd_slug (slug_only (slug post_hello)) = Some (slug post_hello)
   \<and> normalized (slug post_hello) = slug post_hello
   \<and> slug post_hello \<noteq> []
   \<and> length (slug post_hello) \<le> 220
   \<and> status (sent (updateBlog example_env example_world ''64B0000000000000000000B1''
                     (slug_only (slug post_hello)))) = 200"
proof -
  have a1: "truthy (upd_slug (slug_only ''Goa Trip''))" by code_simp
  have a2: "update_reaches_slug_check example_env example_world (slug_only ''Goa Trip'')"
    by code_simp
  have a3: "castObjectId example_env ''64B0000000000000000000B1'' = Some ''64b0000000000000000000b1''"
    by code_simp
  have a4: "list_ex (\<lambda>b. blog_id b \<noteq> ''64b0000000000000000000b1''
                  \<and> slug b = createSlug (now example_env) (val (upd_slug (slug_only ''Goa Trip''))))
         (blogs example_world)" by code_simp
  have c1: "post_hello \<in> set (blogs example_world)" by (simp add: example_world_def)
  have c2: "blog_id post_hello = ''64b0000000000000000000b1''" by (simp add: post_hello_def)
  have c3: "distinct (map blog_id (blogs example_world))" by code_simp
  have c4: "distinct (map slug (blogs example_world))" by code_simp
  have c5: "upd_slug (slug_only (slug post_hello)) = Some (slug post_hello)"
    by (simp add: slug_only_def)
  have c6: "normalized (slug post_hello) = slug post_hello" by code_simp
  have c7: "slug post_hello \<noteq> []" by (simp add: post_hello_def)
  have c8: "length (slug post_hello) \<le> 220" by (simp add: post_hello_def)
  from a3 c2 have a5: "castObjectId example_env ''64B0000000000000000000B1'' = Some (blog_id post_hello)"
    by simp
  from updateBlog_slug_uniqueness
         [where req = "slug_only ''Goa Trip''" and ev = example_env and w = example_world
            and i = "''64B0000000000000000000B1''" and oid = "''64b0000000000000000000b1''"
            and p = post_hello]
       a1 a2 a3 a4
  have r1: "status (sent (updateBlog example_env example_world ''64B0000000000000000000B1''
                     (slug_only ''Goa Trip''))) = 409"
    by (simp add: respond_def)
  from updateBlog_slug_uniqueness
         [where req = "slug_only (slug post_hello)" and ev = example_env and w = example_world
            and i = "''64B0000000000000000000B1''" and oid = "''64b0000000000000000000b1''"
            and p = post_hello]
       a5 c1 c3 c4 c5 c6 c7 c8
  have r2: "status (sent (updateBlog example_env example_world ''64B0000000000000000000B1''
                     (slug_only (slug post_hello)))) = 200"
    by (simp add: respond_def)
  from a1 a2 a3 a4 r1 c1 c2 c3 c4 c5 c6 c7 c8 r2 show ?thesis by blast
qed


section \<open>Listing posts\<close>

lemma set_insort_by: "set (insort_by le x xs) = insert x (set xs)"
  by (induction xs) auto

lemma length_insort_by: "length (insort_by le x xs) = Suc (length xs)"
  by (induction xs) auto

lemma set_sort_by: "set (sort_by le xs) = set xs"
  by (induction xs) (simp_all add: sort_by_def set_insort_by)

lemma length_sort_by: "length (sort_by le xs) = length xs"
  by (induction xs) (simp_all add: sort_by_def length_insort_by)

lemma set_sort_docs: "set (sort_docs name dir ds) = set ds"
  by (simp add: sort_docs_def set_sort_by)

lemma length_sort_docs: "length (sort_docs name dir ds) = length ds"
  by (simp add: sort_docs_def length_sort_by)

lemma set_skip_limit: "set (skip_limit sk limit ds) \<subseteq> set ds"
proof -
  have "set (take n (drop k ds)) \<subseteq> set ds" for n k
    using set_take_subset [of n "drop k ds"] set_drop_subset [of k ds] by blast
  then show ?thesis using set_drop_subset [of "nat sk" ds] by (simp add: skip_limit_def)
qed

lemma unpopulate: "map fst (map (populate w) ds) = ds"
  by (induction ds) (simp_all add: populate_def)

lemma take_drop_nth:
  "take n (drop k xs) = map ((!) xs) [k..<min (k + n) (length xs)]"
proof -
  have "take n (drop k xs) = take n (drop k (map ((!) xs) [0..<length xs]))"
    by (simp add: map_nth)
  also have "\<dots> = map ((!) xs) (take n [k..<length xs])"
    by (simp add: take_map drop_map)
  also have "take n [k..<length xs] = [k..<min (k + n) (length xs)]"
  proof (cases "k + n \<le> length xs")
    case True
    then show ?thesis by (simp add: min_def)
  next
    case False
    then have "length [k..<length xs] \<le> n" by simp
    then have "take n [k..<length xs] = [k..<length xs]" by (rule take_all)
    with False show ?thesis by (simp add: min_def)
  qed
  finally show ?thesis .
qed

lemma ceil_div_ceiling:
  "1 \<le> limit \<Longrightarrow> ceil_div tot limit = Num \<lceil>real tot / real_of_int limit\<rceil>"
proof -
  assume "1 \<le> limit"
  moreover have "\<lceil>real_of_int (int tot) / real_of_int limit\<rceil> = - (- int tot div limit)"
    by (rule ceiling_divide_eq_div)
  ultimately show ?thesis by (simp add: ceil_div_def)
qed

lemma listed_list_response:
  "listed (sent (list_response failure found counted pg w)) =
     (case found of Inl e \<Rightarrow> []
      | Inr docs \<Rightarrow> (case counted of Inl e \<Rightarrow> [] | Inr tot \<Rightarrow> map fst docs))"
  by (simp add: list_response_def listed_def sent_def respond_def split: sum.splits)

lemma paging_list_response:
  "paging (sent (list_response failure found counted pg w)) =
     (case found of Inl e \<Rightarrow> None
      | Inr docs \<Rightarrow> (case counted of Inl e \<Rightarrow> None | Inr tot \<Rightarrow> Some (pg tot)))"
  by (simp add: list_response_def paging_def sent_def respond_def split: sum.splits)

lemma Blog_find_gate:
  "Blog_find ev w f name dir limit sk = Inr docs \<Longrightarrow> b \<in> set (map fst docs) \<Longrightarrow>
   b \<in> set (blogs w) \<and> matches ev f b"
proof -
  assume a: "Blog_find ev w f name dir limit sk = Inr docs" and b: "b \<in> set (map fst docs)"
  from a have "docs = map (populate w)
      (skip_limit sk limit (sort_docs name dir (filter (matches ev f) (blogs w))))"
    by (auto simp: Blog_find_def split: option.splits if_splits)
  with b have "b \<in> set (skip_limit sk limit (sort_docs name dir (filter (matches ev f) (blogs w))))"
    by (simp only: unpopulate)
  then have "b \<in> set (sort_docs name dir (filter (matches ev f) (blogs w)))"
    by (rule set_skip_limit [THEN subsetD])
  then show ?thesis by (simp add: set_sort_docs)
qed

lemma listed_gate:
  "b \<in> set (listed (sent (list_response failure (Blog_find ev w f name dir limit sk) counted pg w)))
   \<Longrightarrow> publishedDate b \<le> publishedDate_lte f"
proof -
  assume a: "b \<in> set (listed (sent (list_response failure (Blog_find ev w f name dir limit sk) counted pg w)))"
  show ?thesis
  proof (cases "Blog_find ev w f name dir limit sk")
    case (Inl e)
    with a show ?thesis by (simp add: listed_list_response)
  next
    case (Inr docs)
    with a have "b \<in> set (map fst docs)"
      by (cases counted) (simp_all add: listed_list_response)
    with Inr have "matches ev f b" using Blog_find_gate by blast
    then show ?thesis by (simp add: matches_def)
  qed
qed

text \<open>
  C3.  Every post in the slice returned by \<open>getBlogs\<close>, and every post in the slice
  returned by \<open>getBlogsByCategory\<close>, has a \<open>publishedDate\<close> that is at most the time
  of the query; so a post whose \<open>publishedDate\<close> is after the time of the query is in
  neither slice, whatever category, search, sort, page and limit the request carries.
\<close>

theorem listings_exclude_future_posts:
  "list_all (\<lambda>b. publishedDate b \<le> int (now ev)) (listed (sent (getBlogs ev w q)))
   \<and> list_all (\<lambda>b. publishedDate b \<le> int (now ev))
        (listed (sent (getBlogsByCategory ev later w categoryId q)))
   \<and> (int (now ev) < publishedDate p \<longrightarrow>
         p \<notin> set (listed (sent (getBlogs ev w q)))
         \<and> p \<notin> set (listed (sent (getBlogsByCategory ev later w categoryId q))))"
proof -
  have 1: "publishedDate b \<le> int (now ev)" if "b \<in> set (listed (sent (getBlogs ev w q)))" for b
    using that listed_gate [of b _ ev w "getBlogs_filter ev q"]
    by (simp add: getBlogs_def Let_def getBlogs_filter_def)
  have 2: "publishedDate b \<le> int (now ev)"
    if "b \<in> set (listed (sent (getBlogsByCategory ev later w categoryId q)))" for b
    using that
      listed_gate [of b _ ev w "\<lparr>publishedDate_lte = int (now ev),
        filter_category = Some categoryId, filter_search = None\<rparr>"]
    by (simp add: getBlogsByCategory_def Let_def)
  have 3: "p \<notin> set (listed (sent (getBlogs ev w q)))" if "int (now ev) < publishedDate p"
  proof
    assume "p \<in> set (listed (sent (getBlogs ev w q)))"
    then have "publishedDate p \<le> int (now ev)" by (rule 1)
    with that show False by simp
  qed
  have 4: "p \<notin> set (listed (sent (getBlogsByCategory ev later w categoryId q)))"
    if "int (now ev) < publishedDate p"
  proof
    assume "p \<in> set (listed (sent (getBlogsByCategory ev later w categoryId q)))"
    then have "publishedDate p \<le> int (now ev)" by (rule 2)
    with that show False by simp
  qed
  from 1 2 3 4 show ?thesis by (simp add: list_all_iff)
qed


theorem listings_exclude_future_posts_witness:
  "int (now example_env) < publishedDate post_goa
   \<and> post_goa \<in> set (blogs example_world)
   \<and> post_goa \<notin> set (listed (sent (getBlogs example_env example_world (page_query 1 10))))
   \<and> post_goa \<notin> set (listed (sent (getBlogsByCategory example_env 40 example_world
                                       ''64b0000000000000000000c1'' (page_query 1 10))))
   \<and> listed (sent (getBlogs example_env example_world (page_query 1 10))) = [post_hello]
   \<and> listed (sent (getBlogsByCategory example_env 40 example_world
                      ''64b0000000000000000000c1'' (page_query 1 10))) = [post_hello]"
proof -
  have h: "int (now example_env) < publishedDate post_goa"
    by (simp add: example_env_def post_goa_def)
  have m: "post_goa \<in> set (blogs example_world)" by (simp add: example_world_def)
  have l1: "listed (sent (getBlogs example_env example_world (page_query 1 10))) = [post_hello]"
    by code_simp
  have l2: "listed (sent (getBlogsByCategory example_env 40 example_world
                      ''64b0000000000000000000c1'' (page_query 1 10))) = [post_hello]"
    by code_simp
  from listings_exclude_future_posts
         [of example_env example_world "page_query 1 10" 40 "''64b0000000000000000000c1''" post_goa]
       h
  have "post_goa \<notin> set (listed (sent (getBlogs example_env example_world (page_query 1 10))))
        \<and> post_goa \<notin> set (listed (sent (getBlogsByCategory example_env 40 example_world
                                       ''64b0000000000000000000c1'' (page_query 1 10))))"
    by blast
  with h m l1 l2 show ?thesis by blast
qed

lemma skip_limit_page:
  assumes "1 \<le> page" "1 \<le> limit"
  shows "skip_limit ((page - 1) * limit) (limit * 1) ds =
           map ((!) ds) [nat ((page - 1) * limit)..<min (nat (page * limit)) (length ds)]"
proof -
  from assms have "0 \<le> (page - 1) * limit" by simp
  then have "nat ((page - 1) * limit) + nat limit = nat ((page - 1) * limit + limit)"
    using assms(2) by (simp add: nat_add_distrib)
  also have "(page - 1) * limit + limit = page * limit" by (simp add: algebra_simps)
  finally have "nat ((page - 1) * limit) + nat limit = nat (page * limit)" .
  with assms(2) show ?thesis
    using take_drop_nth [of "nat limit" "nat ((page - 1) * limit)" ds]
    by (simp add: skip_limit_def)
qed

lemma mset_insort_by: "mset (insort_by le x xs) = add_mset x (mset xs)"
  by (induction xs) auto

lemma mset_sort_by: "mset (sort_by le xs) = mset xs"
  by (induction xs) (simp_all add: sort_by_def mset_insort_by)

lemma sorted_insort_by:
  assumes tot: "\<And>a b. le a b \<or> le b a"
    and tr: "\<And>a b c. le a b \<Longrightarrow> le b c \<Longrightarrow> le a c"
  shows "sorted_wrt le xs \<Longrightarrow> sorted_wrt le (insort_by le x xs)"
proof (induction xs)
  case Nil
  then show ?case by simp
next
  case (Cons y ys)
  show ?case
  proof (cases "le x y")
    case True
    with Cons.prems have "\<forall>z\<in>set (y # ys). le x z" using tr by auto
    with True Cons.prems show ?thesis by simp
  next
    case False
    with tot [of x y] have "le y x" by simp
    with False Cons show ?thesis by (auto simp: set_insort_by)
  qed
qed

lemma sorted_sort_by:
  assumes "\<And>a b. le a b \<or> le b a" and "\<And>a b c. le a b \<Longrightarrow> le b c \<Longrightarrow> le a c"
  shows "sorted_wrt le (sort_by le xs)"
proof (induction xs)
  case Nil
  then show ?case by (simp add: sort_by_def)
next
  case (Cons x xs)
  then have "sorted_wrt le (insort_by le x (sort_by le xs))"
    using assms by (rule sorted_insort_by [rotated 2])
  then show ?case by (simp add: sort_by_def)
qed

lemma code_less_cases: "code c < code d \<or> c = d \<or> code d < code c"
proof -
  have "code c = code d \<Longrightarrow> c = d" by (simp add: code_def)
  then show ?thesis by (cases "code c" "code d" rule: linorder_cases) auto
qed

lemma str_le_total: "str_le s t \<or> str_le t s"
proof (induction s t rule: str_le.induct)
  case (3 c cs d ds)
  then show ?case using code_less_cases [of c d] by auto
qed simp_all

lemma str_le_trans: "str_le s t \<Longrightarrow> str_le t u \<Longrightarrow> str_le s u"
proof (induction s arbitrary: t u)
  case Nil
  then show ?case by simp
next
  case (Cons c cs)
  from Cons.prems(1) obtain d ds where t: "t = d # ds" by (cases t) auto
  from Cons.prems(2) t obtain e es where u: "u = e # es" by (cases u) auto
  from Cons.prems t u have 1: "code c < code d \<or> (c = d \<and> str_le cs ds)"
    and 2: "code d < code e \<or> (d = e \<and> str_le ds es)" by simp_all
  show ?case
  proof (cases "c = d \<and> d = e")
    case True
    with 1 2 have "str_le cs ds" "str_le ds es" by auto
    then have "str_le cs es" by (rule Cons.IH)
    with True u show ?thesis by simp
  next
    case False
    with 1 2 have "code c < code e" by auto
    with u show ?thesis by simp
  qed
qed

lemma value_le_total: "value_le x y \<or> value_le y x"
  using str_le_total by (cases x; cases y) auto

lemma value_le_trans: "value_le x y \<Longrightarrow> value_le y z \<Longrightarrow> value_le x z"
  using str_le_trans by (cases x; cases y; cases z) auto

lemma spec_in_order_total: "spec_in_order name order a b \<or> spec_in_order name order b a"
  using value_le_total by (simp add: spec_in_order_def)

lemma spec_in_order_trans:
  "spec_in_order name order a b \<Longrightarrow> spec_in_order name order b c \<Longrightarrow> spec_in_order name order a c"
  using value_le_trans by (auto simp: spec_in_order_def split: if_splits)

lemma sort_docs_in_order:
  "sorted_wrt (spec_in_order name order)
     (sort_docs name (if order = ''desc'' then - 1 else 1) ds)"
proof -
  have "(\<lambda>a b. if (if order = ''desc'' then - 1 else (1::int)) = - 1
                then value_le (field name b) (field name a)
                else value_le (field name a) (field name b))
          = spec_in_order name order"
    by (intro ext) (simp add: spec_in_order_def)
  then have "sort_docs name (if order = ''desc'' then - 1 else 1) ds
          = sort_by (spec_in_order name order) ds"
    by (simp only: sort_docs_def)
  then show ?thesis
    using sorted_sort_by [of "spec_in_order name order" ds]
      spec_in_order_total spec_in_order_trans by metis
qed

lemma mset_sort_docs: "mset (sort_docs name dir ds) = mset ds"
  by (simp add: sort_docs_def mset_sort_by)

lemma matches_spec_eligible: "matches ev (getBlogs_filter ev q) = spec_eligible ev q"
proof
  fix b
  show "matches ev (getBlogs_filter ev q) b = spec_eligible ev q b"
    by (cases "q_category q"; cases "q_search q")
       (auto simp: matches_def getBlogs_filter_def spec_eligible_def truthy_def val_def)
qed

lemma getBlogs_filter_accepted:
  assumes "truthy (q_category q) \<longrightarrow> isValid ev (val (q_category q))"
    and "truthy (q_search q) \<longrightarrow> regex_valid ev (val (q_search q))"
  shows "filter_error ev (getBlogs_filter ev q) = None"
  using assms
  by (cases "q_category q"; cases "q_search q")
     (auto simp: filter_error_def getBlogs_filter_def truthy_def val_def)

text \<open>
  C2.  For a list request whose category, when given, is the text of an ObjectId and
  whose search, when given, is a regular expression, with page and limit at least 1:
  there is a list of matches that holds exactly the eligible posts of the store (each as
  often as the store holds it), in the order of the sort asked for (by default, latest
  \<open>publishedDate\<close> first), such that, with total the number of eligible posts, the
  pagination of the response has \<open>totalPages\<close> the ceiling of total / limit,
  \<open>totalBlogs\<close> the total, \<open>hasNext\<close> whether the page is below \<open>totalPages\<close> and
  \<open>hasPrev\<close> whether the page is above 1, and the slice returned is the matches at the
  positions from (page - 1) * limit up to, and without, page * limit, as far as there
  are matches.  With 25 eligible posts, limit 10 and page 3 the slice has 5 posts,
  \<open>totalPages\<close> is 3, \<open>hasNext\<close> is false and \<open>hasPrev\<close> is true.
\<close>

theorem getBlogs_pagination:
  fixes ev :: env and w :: world and q :: list_query
  defines "page \<equiv> or_default (q_page q) 1"
    and "limit \<equiv> or_default (q_limit q) 10"
    and "sortBy \<equiv> or_default (q_sortBy q) ''publishedDate''"
    and "sortOrder \<equiv> or_default (q_sortOrder q) ''desc''"
    and "tot \<equiv> length (filter (spec_eligible ev q) (blogs w))"
  assumes "truthy (q_category q) \<longrightarrow> isValid ev (val (q_category q))"
    and "truthy (q_search q) \<longrightarrow> regex_valid ev (val (q_search q))"
    and "1 \<le> page" and "1 \<le> limit"
  shows "\<exists>matching.
           mset matching = mset (filter (spec_eligible ev q) (blogs w))
         \<and> sorted_wrt (spec_in_order sortBy sortOrder) matching
         \<and> (q_sortBy q = None \<and> q_sortOrder q = None \<longrightarrow>
              sorted_wrt (\<lambda>a b. publishedDate b \<le> publishedDate a) matching)
         \<and> listed (sent (getBlogs ev w q)) =
             map ((!) matching) [nat ((page - 1) * limit)..<min (nat (page * limit)) tot]
         \<and> paging (sent (getBlogs ev w q)) =
             Some \<lparr>currentPage = page,
                   totalPages = Num \<lceil>real tot / real_of_int limit\<rceil>,
                   totalBlogs = tot,
                   hasNext = Some (page < \<lceil>real tot / real_of_int limit\<rceil>),
                   hasPrev = Some (1 < page)\<rparr>
         \<and> (tot = 25 \<and> limit = 10 \<and> page = 3 \<longrightarrow>
              length (listed (sent (getBlogs ev w q))) = 5
              \<and> paging (sent (getBlogs ev w q)) =
                  Some \<lparr>currentPage = 3, totalPages = Num 3, totalBlogs = 25,
                        hasNext = Some False, hasPrev = Some True\<rparr>)"
proof -
  let ?f = "getBlogs_filter ev q"
  let ?dir = "if sortOrder = ''desc'' then - 1 else (1::int)"
  define matching where "matching = sort_docs sortBy ?dir (filter (spec_eligible ev q) (blogs w))"
  have ok: "filter_error ev ?f = None"
    using assms(6,7) by (rule getBlogs_filter_accepted)
  have len: "length matching = tot"
    by (simp add: matching_def tot_def length_sort_docs)
  have m1: "mset matching = mset (filter (spec_eligible ev q) (blogs w))"
    by (simp add: matching_def mset_sort_docs)
  have m2: "sorted_wrt (spec_in_order sortBy sortOrder) matching"
    unfolding matching_def by (rule sort_docs_in_order)
  have m3: "sorted_wrt (\<lambda>a b. publishedDate b \<le> publishedDate a) matching"
    if "q_sortBy q = None \<and> q_sortOrder q = None"
  proof -
    from that have "spec_in_order sortBy sortOrder = (\<lambda>a b. publishedDate b \<le> publishedDate a)"
      by (intro ext) (simp add: sortBy_def sortOrder_def or_default_def spec_in_order_def field_def)
    with m2 show ?thesis by simp
  qed
  have found: "Blog_find ev w ?f sortBy ?dir (limit * 1) ((page - 1) * limit) =
                 Inr (map (populate w) (skip_limit ((page - 1) * limit) (limit * 1) matching))"
  proof -
    from assms(8,9) have "0 \<le> (page - 1) * limit" by simp
    then have "\<not> (page - 1) * limit < 0" by simp
    with ok show ?thesis by (simp add: Blog_find_def matching_def matches_spec_eligible)
  qed
  have counted: "Blog_countDocuments ev w ?f = Inr tot"
    using ok by (simp add: Blog_countDocuments_def tot_def matches_spec_eligible)
  have g: "getBlogs ev w q =
             list_response ''Error fetching blogs''
               (Inr (map (populate w) (skip_limit ((page - 1) * limit) (limit * 1) matching)))
               (Inr tot)
               (\<lambda>n. \<lparr>currentPage = page,
                     totalPages = ceil_div n limit,
                     totalBlogs = n,
                     hasNext = Some (js_less page (ceil_div n limit)),
                     hasPrev = Some (page > 1)\<rparr>)
               w"
    unfolding getBlogs_def Let_def page_def [symmetric] limit_def [symmetric]
      sortBy_def [symmetric] sortOrder_def [symmetric]
    by (simp only: found counted)
  have 1: "paging (sent (getBlogs ev w q)) =
             Some \<lparr>currentPage = page,
                   totalPages = Num \<lceil>real tot / real_of_int limit\<rceil>,
                   totalBlogs = tot,
                   hasNext = Some (page < \<lceil>real tot / real_of_int limit\<rceil>),
                   hasPrev = Some (1 < page)\<rparr>"
    by (simp add: g paging_list_response ceil_div_ceiling [OF assms(9)] js_less_def)
  have 2: "listed (sent (getBlogs ev w q)) =
             map ((!) matching) [nat ((page - 1) * limit)..<min (nat (page * limit)) tot]"
    by (simp only: g listed_list_response sum.case unpopulate skip_limit_page [OF assms(8,9)] len)
  have 3: "length (listed (sent (getBlogs ev w q))) = 5
              \<and> paging (sent (getBlogs ev w q)) =
                  Some \<lparr>currentPage = 3, totalPages = Num 3, totalBlogs = 25,
                        hasNext = Some False, hasPrev = Some True\<rparr>"
    if "tot = 25 \<and> limit = 10 \<and> page = 3"
  proof -
    from that have "\<lceil>real tot / real_of_int limit\<rceil> = 3" by simp
    with that show ?thesis unfolding 1 2 by simp
  qed
  from m1 m2 m3 1 2 3 show ?thesis by blast
qed

theorem getBlogs_pagination_witness:
  "q_category (page_query 3 10) = None
   \<and> q_search (page_query 3 10) = None
   \<and> or_default (q_page (page_query 3 10)) 1 = 3
   \<and> or_default (q_limit (page_query 3 10)) 10 = 10
   \<and> length (filter (spec_eligible example_env (page_query 3 10)) (blogs world25)) = 25
   \<and> length (listed (sent (getBlogs example_env world25 (page_query 3 10)))) = 5
   \<and> paging (sent (getBlogs example_env world25 (page_query 3 10))) =
       Some \<lparr>currentPage = 3, totalPages = Num 3, totalBlogs = 25,
             hasNext = Some False, hasPrev = Some True\<rparr>
   \<and> isValid example_env ''64B0000000000000000000C1''
   \<and> filter (spec_eligible example_env
               ((page_query 1 10)\<lparr>q_category := Some ''64B0000000000000000000C1''\<rparr>))
        (blogs example_world) = [post_hello]
   \<and> listed (sent (getBlogs example_env example_world
               ((page_query 1 10)\<lparr>q_category := Some ''64B0000000000000000000C1''\<rparr>)))
       = [post_hello]
   \<and> paging (sent (getBlogs example_env example_world
               ((page_query 1 10)\<lparr>q_category := Some ''64B0000000000000000000C1''\<rparr>))) =
       Some \<lparr>currentPage = 1, totalPages = Num 1, totalBlogs = 1,
             hasNext = Some False, hasPrev = Some False\<rparr>"
proof -
  let ?q = "page_query 3 10"
  let ?c = "(page_query 1 10)\<lparr>q_category := Some ''64B0000000000000000000C1''\<rparr>"
  have c: "truthy (q_category ?q) \<longrightarrow> isValid example_env (val (q_category ?q))"
    by (simp add: page_query_def truthy_def)
  have s: "truthy (q_search ?q) \<longrightarrow> regex_valid example_env (val (q_search ?q))"
    by (simp add: page_query_def truthy_def)
  have p: "or_default (q_page ?q) 1 = 3" by (simp add: page_query_def or_default_def)
  have l: "or_default (q_limit ?q) 10 = 10" by (simp add: page_query_def or_default_def)
  have n: "length (filter (spec_eligible example_env ?q) (blogs world25)) = 25" by code_simp
  have p1: "1 \<le> or_default (q_page ?q) 1" using p by simp
  have l1: "1 \<le> or_default (q_limit ?q) 10" using l by simp
  from getBlogs_pagination [OF c s p1 l1, of world25] p l n
  have r: "length (listed (sent (getBlogs example_env world25 ?q))) = 5
        \<and> paging (sent (getBlogs example_env world25 ?q)) =
            Some \<lparr>currentPage = 3, totalPages = Num 3, totalBlogs = 25,
                  hasNext = Some False, hasPrev = Some True\<rparr>"
    by auto
  have v: "isValid example_env ''64B0000000000000000000C1''" by code_simp
  then have c': "truthy (q_category ?c) \<longrightarrow> isValid example_env (val (q_category ?c))"
    by (simp add: val_def)
  have s': "truthy (q_search ?c) \<longrightarrow> regex_valid example_env (val (q_search ?c))"
    by (simp add: page_query_def truthy_def)
  have p': "or_default (q_page ?c) 1 = 1" by (simp add: page_query_def or_default_def)
  have l': "or_default (q_limit ?c) 10 = 10" by (simp add: page_query_def or_default_def)
  have e: "filter (spec_eligible example_env ?c) (blogs example_world) = [post_hello]"
    by code_simp
  have p1': "1 \<le> or_default (q_page ?c) 1" using p' by simp
  have l1': "1 \<le> or_default (q_limit ?c) 10" using l' by simp
  from getBlogs_pagination [OF c' s' p1' l1', of example_world]
  obtain matching where m: "mset matching = mset (filter (spec_eligible example_env ?c) (blogs example_world))"
    and li: "listed (sent (getBlogs example_env example_world ?c)) =
             map ((!) matching)
               [nat ((or_default (q_page ?c) 1 - 1) * or_default (q_limit ?c) 10)..<
                min (nat (or_default (q_page ?c) 1 * or_default (q_limit ?c) 10))
                    (length (filter (spec_eligible example_env ?c) (blogs example_world)))]"
    and pg: "paging (sent (getBlogs example_env example_world ?c)) =
             Some \<lparr>currentPage = or_default (q_page ?c) 1,
                   totalPages = Num \<lceil>real (length (filter (spec_eligible example_env ?c)
                                  (blogs example_world))) / real_of_int (or_default (q_limit ?c) 10)\<rceil>,
                   totalBlogs = length (filter (spec_eligible example_env ?c) (blogs example_world)),
                   hasNext = Some (or_default (q_page ?c) 1
                     < \<lceil>real (length (filter (spec_eligible example_env ?c)
                                  (blogs example_world))) / real_of_int (or_default (q_limit ?c) 10)\<rceil>),
                   hasPrev = Some (1 < or_default (q_page ?c) 1)\<rparr>"
    by blast
  from m e have "matching = [post_hello]" by simp
  moreover have "\<lceil>(1::real) / 10\<rceil> = 1" by (rule ceiling_unique) simp_all
  ultimately have r':
    "listed (sent (getBlogs example_env example_world ?c)) = [post_hello]
     \<and> paging (sent (getBlogs example_env example_world ?c)) =
       Some \<lparr>currentPage = 1, totalPages = Num 1, totalBlogs = 1,
             hasNext = Some False, hasPrev = Some False\<rparr>"
    using li pg e p' l' by simp
  have c0: "q_category ?q = None" and s0: "q_search ?q = None"
    by (simp_all add: page_query_def)
  from c0 s0 p l n r v e r' show ?thesis by blast
qed

end
